theory Spec2Isabelle
  imports Complex_Main
begin

section \<open>Pascal's triangle animation: the combinatorial model\<close>

text \<open>
  The component \<^verbatim>\<open>PascalTriangleAnimation\<close> builds the triangle with \<^verbatim>\<open>buildPascal\<close>, counts
  the animation steps with \<^verbatim>\<open>totalSteps\<close> and maps a step to a cell with \<^verbatim>\<open>stepToCell\<close>.

  A JavaScript \<^verbatim>\<open>number\<close> is an IEEE double. The numbers of this program are sums of
  integers, so a number is modelled by the integer it holds, by an infinity or by \<^verbatim>\<open>NaN\<close>,
  and an addition rounds its exact result to the nearest double: \<open>round53\<close> rounds an
  integer to 53 significant bits, ties to the even significand, and a result of magnitude
  \<open>2^1024\<close> or more is an infinity. Every integer of magnitude up to \<open>2^53\<close> is a double,
  and \<open>2^53 + 1\<close> is rounded to \<open>2^53\<close>. A read of an array element that does not exist gives
  \<^verbatim>\<open>undefined\<close>, and \<^verbatim>\<open>undefined + x\<close> is \<^verbatim>\<open>NaN\<close>; a read of a property of \<^verbatim>\<open>undefined\<close>
  throws a \<^verbatim>\<open>TypeError\<close>. The inputs \<^verbatim>\<open>n\<close>, \<^verbatim>\<open>rows\<close> and \<^verbatim>\<open>step\<close> can be any integer
  that is a double.

  The counter of a bounded loop \<^verbatim>\<open>for (let r = a; r < n; r++)\<close> is a natural number that
  counts exactly: it stays below the bound, and it is exact as a double as long as the bound
  is at most \<open>2^53\<close>. A bound above \<open>2^53\<close> (a triangle of more than \<open>9 * 10^15\<close> rows) is
  outside this model. The counters of the unbounded loop of \<^verbatim>\<open>stepToCell\<close> are incremented
  as doubles (\<open>js_inc\<close>).
\<close>

datatype jsval = Num int | PosInf | NegInf | NaN | Undefined

datatype error = TypeError

text \<open>The number of bits of a positive integer.\<close>

function bit_length :: "int \<Rightarrow> nat" where
  "bit_length n = (if n \<le> 0 then 0 else Suc (bit_length (n div 2)))"
  by pat_completeness auto
termination
  by (relation "measure (\<lambda>n. nat n)") auto

declare bit_length.simps [simp del]

text \<open>
  Rounding an integer to the nearest double, ignoring overflow: an integer of more than 53
  bits keeps its 53 leading bits \<open>q\<close>; the rest \<open>r\<close> is dropped, and \<open>q\<close> is incremented when
  \<open>r\<close> is more than half a unit of \<open>q\<close>, or exactly half and \<open>q\<close> is odd.
\<close>

definition round53 :: "int \<Rightarrow> int" where
  "round53 x =
     (if \<bar>x\<bar> \<le> 2 ^ 53 then x
      else
        (let e = bit_length \<bar>x\<bar> - 53;
             q = \<bar>x\<bar> div 2 ^ e;
             r = \<bar>x\<bar> mod 2 ^ e;
             h = 2 ^ (e - 1);
             q' = (if h < r \<or> (r = h \<and> odd q) then q + 1 else q)
         in sgn x * (q' * 2 ^ e)))"

text \<open>The double nearest to an integer, and the addition of two numbers.\<close>

definition js_number :: "int \<Rightarrow> jsval" where
  "js_number x =
     (let y = round53 x
      in if 2 ^ 1024 \<le> y then PosInf else if y \<le> - (2 ^ 1024) then NegInf else Num y)"

fun js_add :: "jsval \<Rightarrow> jsval \<Rightarrow> jsval" where
  "js_add (Num a) (Num b) = js_number (a + b)"
| "js_add (Num a) PosInf = PosInf"
| "js_add PosInf (Num b) = PosInf"
| "js_add PosInf PosInf = PosInf"
| "js_add (Num a) NegInf = NegInf"
| "js_add NegInf (Num b) = NegInf"
| "js_add NegInf NegInf = NegInf"
| "js_add _ _ = NaN"

text \<open>\<^verbatim>\<open>x++\<close> on a counter that holds a natural number: it stops growing at \<open>2^53\<close>.\<close>

definition js_inc :: "nat \<Rightarrow> nat" where
  "js_inc s = nat (round53 (int s + 1))"

text \<open>\<^verbatim>\<open>xs[i]\<close> on an array of numbers, and \<^verbatim>\<open>triangle[r]\<close> (\<open>None\<close> is \<^verbatim>\<open>undefined\<close>).\<close>

definition elem_at :: "jsval list \<Rightarrow> nat \<Rightarrow> jsval" where
  "elem_at xs i = (if i < length xs then xs ! i else Undefined)"

definition row_at :: "jsval list list \<Rightarrow> nat \<Rightarrow> jsval list option" where
  "row_at t r = (if r < length t then Some (t ! r) else None)"

text \<open>
  \<^verbatim>\<open>buildPascal\<close>: the inner loop \<^verbatim>\<open>for (let c = 1; c < r; c++) row.push(triangle[r - 1][c - 1] + triangle[r - 1][c])\<close>
  is \<open>build_row\<close>, started with \<open>c = 1\<close> and \<open>row = [1]\<close>; the outer loop
  \<^verbatim>\<open>for (let r = 1; r < n; r++)\<close> is \<open>build_rows\<close>, started with \<open>r = 1\<close> and \<open>triangle = [[1]]\<close>.
\<close>

function build_row :: "jsval list list \<Rightarrow> nat \<Rightarrow> nat \<Rightarrow> jsval list \<Rightarrow> error + jsval list" where
  "build_row triangle r c row =
     (if c < r then
        (case row_at triangle (r - 1) of
           None \<Rightarrow> Inl TypeError
         | Some prev \<Rightarrow>
             build_row triangle r (c + 1) (row @ [js_add (elem_at prev (c - 1)) (elem_at prev c)]))
      else Inr row)"
  by pat_completeness auto
termination
  by (relation "measure (\<lambda>(triangle, r, c, row). r - c)") auto

declare build_row.simps [simp del]

function build_rows :: "int \<Rightarrow> nat \<Rightarrow> jsval list list \<Rightarrow> error + jsval list list" where
  "build_rows n r triangle =
     (if int r < n then
        (case build_row triangle r 1 [Num 1] of
           Inl e \<Rightarrow> Inl e
         | Inr row \<Rightarrow> build_rows n (r + 1) (triangle @ [row @ [Num 1]]))
      else Inr triangle)"
  by pat_completeness auto
termination
  by (relation "measure (\<lambda>(n, r, triangle). nat (n - int r))") auto

declare build_rows.simps [simp del]

definition buildPascal :: "int \<Rightarrow> error + jsval list list" where
  "buildPascal n = build_rows n 1 [[Num 1]]"

text \<open>
  \<^verbatim>\<open>totalSteps\<close>: \<^verbatim>\<open>for (let r = 0; r < rows; r++) count += r + 1\<close>. The sum \<^verbatim>\<open>count + (r + 1)\<close>
  is rounded to a double.
\<close>

function totalSteps_loop :: "int \<Rightarrow> nat \<Rightarrow> int \<Rightarrow> int" where
  "totalSteps_loop rows r count =
     (if int r < rows then totalSteps_loop rows (r + 1) (round53 (count + (int r + 1))) else count)"
  by pat_completeness auto
termination
  by (relation "measure (\<lambda>(rows, r, count). nat (rows - int r))") auto

declare totalSteps_loop.simps [simp del]

definition totalSteps :: "int \<Rightarrow> int" where
  "totalSteps rows = totalSteps_loop rows 0 0"

text \<open>
  \<^verbatim>\<open>stepToCell\<close>: the outer loop \<^verbatim>\<open>for (let r = 0; ; r++)\<close> has no exit condition, the inner loop
  is \<^verbatim>\<open>for (let c = 0; c <= r; c++) { if (s === step) return { row: r, col: c }; s++; }\<close>. The two
  loops are one recursion on \<open>(r, c, s)\<close>: while \<open>c \<le> r\<close> the inner loop runs, otherwise the
  outer loop moves to the next row with \<open>c = 0\<close>. The three counters are doubles: \<^verbatim>\<open>s++\<close>,
  \<^verbatim>\<open>c++\<close> and \<^verbatim>\<open>r++\<close> are \<open>js_inc\<close>. The function has no \<^verbatim>\<open>throw\<close>; the only way not to
  return a cell is to run forever, which is the value \<open>None\<close>.
\<close>

record cell =
  row :: nat
  col :: nat

partial_function (option) stepToCell_loop :: "int \<Rightarrow> nat \<Rightarrow> nat \<Rightarrow> nat \<Rightarrow> cell option" where
  "stepToCell_loop step r c s =
     (if c \<le> r then
        (if int s = step then Some \<lparr>row = r, col = c\<rparr>
         else stepToCell_loop step r (js_inc c) (js_inc s))
      else stepToCell_loop step (js_inc r) 0 s)"

declare stepToCell_loop.simps [code]

definition stepToCell :: "int \<Rightarrow> cell option" where
  "stepToCell step = stepToCell_loop step 0 0 0"


section \<open>The animation controller\<close>

text \<open>
  The state of the animation is spread over the page \<^verbatim>\<open>MathSetsPage\<close>, which owns
  \<^verbatim>\<open>pascalRows\<close>, \<^verbatim>\<open>pascalPlaying\<close>, \<^verbatim>\<open>pascalStepTrigger\<close> and \<^verbatim>\<open>pascalResetKey\<close>, and the
  component, which owns \<^verbatim>\<open>currentStep\<close> and the reference \<^verbatim>\<open>lastStepTrigger\<close>. The component's
  \<^verbatim>\<open>total\<close> is \<^verbatim>\<open>totalSteps(rows)\<close> of the current \<^verbatim>\<open>rows\<close> property. The component's third
  piece of state, \<^verbatim>\<open>activeAddition\<close>, is written only by the effect that follows every change
  of \<^verbatim>\<open>currentStep\<close>; that effect is \<open>activeAddition_effect\<close> below.

  The step index lies between \<open>-1\<close> and \<open>total - 1\<close>. The page sets \<^verbatim>\<open>pascalRows\<close> to 6 or to
  a value of its slider, 2 to 10, so that \<open>total\<close> is at most 55; \<^verbatim>\<open>prev + 1\<close> and
  \<^verbatim>\<open>total - 1\<close> are then exact and are written as sums of integers.
\<close>

record system =
  pascalRows :: int
  pascalPlaying :: bool
  pascalStepTrigger :: int
  pascalResetKey :: int
  currentStep :: int
  lastStepTrigger :: int

text \<open>
  Mounting the component (a new \<^verbatim>\<open>key\<close>): \<^verbatim>\<open>useState(-1)\<close>, \<^verbatim>\<open>useRef(stepTrigger)\<close>; the effect
  on \<^verbatim>\<open>[rows]\<close> sets \<^verbatim>\<open>currentStep\<close> to \<open>-1\<close> again.
\<close>

definition mount :: "system \<Rightarrow> system" where
  "mount s = s\<lparr>currentStep := - 1, lastStepTrigger := pascalStepTrigger s\<rparr>"

text \<open>The effect on \<^verbatim>\<open>[stepTrigger, total]\<close>: the manual step.\<close>

definition manual_step :: "system \<Rightarrow> system" where
  "manual_step s =
     (if pascalStepTrigger s \<noteq> lastStepTrigger s then
        s\<lparr>lastStepTrigger := pascalStepTrigger s,
          currentStep := min (currentStep s + 1) (totalSteps (pascalRows s) - 1)\<rparr>
      else s)"

text \<open>
  The callback of \<^verbatim>\<open>setInterval\<close>; the flag says whether \<^verbatim>\<open>onComplete\<close> was called. The
  page's \<^verbatim>\<open>onComplete\<close> is \<^verbatim>\<open>handlePascalComplete\<close>.
\<close>

definition interval_tick :: "system \<Rightarrow> system \<times> bool" where
  "interval_tick s =
     (if totalSteps (pascalRows s) - 1 \<le> currentStep s then (s, True)
      else (s\<lparr>currentStep := currentStep s + 1\<rparr>, False))"

definition handlePascalComplete :: "system \<Rightarrow> system" where
  "handlePascalComplete s = s\<lparr>pascalPlaying := False\<rparr>"

text \<open>
  What can happen to the system: the interval fires (an interval exists only while
  \<^verbatim>\<open>isPlaying\<close>), or the user presses the play/pause, step or reset button, moves the row
  slider, or presses the reset button of the page header. A transition returns the new state
  and whether the completion callback ran.
\<close>

datatype event = Tick | PlayPauseButton | StepButton | ResetButton | RowsSlider int | HeaderReset

fun transition :: "system \<Rightarrow> event \<Rightarrow> system \<times> bool" where
  "transition s Tick =
     (if pascalPlaying s then
        (case interval_tick s of
           (s', completed) \<Rightarrow> if completed then (handlePascalComplete s', True) else (s', False))
      else (s, False))"
| "transition s PlayPauseButton = (s\<lparr>pascalPlaying := \<not> pascalPlaying s\<rparr>, False)"
| "transition s StepButton =
     (manual_step (s\<lparr>pascalPlaying := False, pascalStepTrigger := pascalStepTrigger s + 1\<rparr>), False)"
| "transition s ResetButton =
     (mount (s\<lparr>pascalPlaying := False, pascalResetKey := pascalResetKey s + 1\<rparr>), False)"
| "transition s (RowsSlider n) =
     (mount (s\<lparr>pascalRows := n, pascalPlaying := False, pascalResetKey := pascalResetKey s + 1\<rparr>), False)"
| "transition s HeaderReset =
     (mount (s\<lparr>pascalRows := 6, pascalPlaying := False, pascalResetKey := pascalResetKey s + 1\<rparr>), False)"

fun run :: "system \<Rightarrow> event list \<Rightarrow> system \<times> bool list" where
  "run s [] = (s, [])"
| "run s (e # es) =
     (case transition s e of
        (s', completed) \<Rightarrow> (case run s' es of (s'', flags) \<Rightarrow> (s'', completed # flags)))"

text \<open>The page's initial state, with the component mounted.\<close>

definition initial_system :: system where
  "initial_system =
     mount \<lparr>pascalRows = 6, pascalPlaying = False, pascalStepTrigger = 0, pascalResetKey = 0,
            currentStep = - 1, lastStepTrigger = 0\<rparr>"

text \<open>
  The effect on \<^verbatim>\<open>[currentStep]\<close> that sets \<^verbatim>\<open>activeAddition\<close>. The outer \<open>None\<close> is the case
  that \<^verbatim>\<open>stepToCell\<close> does not return; \<open>Some None\<close> is \<^verbatim>\<open>setActiveAddition(null)\<close>.
\<close>

definition activeAddition_effect :: "int \<Rightarrow> cell option option" where
  "activeAddition_effect k =
     (if k < 0 then Some None
      else (case stepToCell k of
              None \<Rightarrow> None
            | Some cell \<Rightarrow>
                if row cell > 0 \<and> col cell > 0 \<and> col cell < row cell then Some (Some cell)
                else Some None))"


section \<open>The drawing function\<close>

text \<open>
  \<^verbatim>\<open>draw\<close> writes to a canvas. Its result is modelled as the list of the operations it performs
  on the canvas and its 2D context, in order. Lengths and coordinates are real numbers (the
  rounding of doubles is not modelled). The two helpers \<^verbatim>\<open>roundRect\<close> and \<^verbatim>\<open>drawArrow\<close> are
  recorded as one operation each, with their arguments. A font \<^verbatim>\<open>`600 ${px}px Inter, sans-serif`\<close>
  is recorded by its weight and size.
\<close>

datatype canvas_op =
    CanvasSize real real
  | CanvasStyleSize real real
  | Scale real real
  | FillStyle string
  | StrokeStyle string
  | LineWidth real
  | Font nat real
  | TextAlign string
  | TextBaseline string
  | ShadowColor string
  | ShadowBlur real
  | Save
  | Restore
  | FillRect real real real real
  | RoundRect real real real real real
  | Fill
  | Stroke
  | FillText string real real
  | DrawArrow real real real real string real real

text \<open>What \<^verbatim>\<open>draw\<close> reads from the document: the canvas, its parent and its context may be missing.\<close>

record dom =
  has_canvas :: bool
  has_parent :: bool
  has_context :: bool
  devicePixelRatio :: real
  clientWidth :: real
  clientHeight :: real

text \<open>\<^verbatim>\<open>String(x)\<close> and \<^verbatim>\<open>`${x}`\<close> for a number.\<close>

definition digit_char :: "nat \<Rightarrow> char" where
  "digit_char d = ''0123456789'' ! d"

function string_of_nat :: "nat \<Rightarrow> string" where
  "string_of_nat n =
     (if n < 10 then [digit_char n] else string_of_nat (n div 10) @ [digit_char (n mod 10)])"
  by pat_completeness auto
termination
  by (relation "measure (\<lambda>n. n)") auto

declare string_of_nat.simps [simp del]

definition string_of_int :: "int \<Rightarrow> string" where
  "string_of_int i = (if i < 0 then CHR ''-'' # string_of_nat (nat (- i)) else string_of_nat (nat i))"

fun js_string :: "jsval \<Rightarrow> string" where
  "js_string (Num i) = string_of_int i"
| "js_string PosInf = ''Infinity''"
| "js_string NegInf = ''-Infinity''"
| "js_string NaN = ''NaN''"
| "js_string Undefined = ''undefined''"

text \<open>The colours.\<close>

definition bgColor :: "bool \<Rightarrow> string" where
  "bgColor isDark = (if isDark then ''#0F172A'' else ''#F8FAFC'')"

definition cellBg :: "bool \<Rightarrow> string" where
  "cellBg isDark = (if isDark then ''#1E293B'' else ''#FFFFFF'')"

definition cellBorder :: "bool \<Rightarrow> string" where
  "cellBorder isDark = (if isDark then ''#334155'' else ''#E2E8F0'')"

definition textColor :: "bool \<Rightarrow> string" where
  "textColor isDark = (if isDark then ''#F1F5F9'' else ''#1E293B'')"

definition dimTextColor :: "bool \<Rightarrow> string" where
  "dimTextColor isDark = (if isDark then ''#475569'' else ''#CBD5E1'')"

definition accentColor :: string where
  "accentColor = ''#F59E0B''"

definition arrowColor :: "bool \<Rightarrow> string" where
  "arrowColor isDark = (if isDark then ''#94A3B8'' else ''#64748B'')"

definition additionHighlight :: string where
  "additionHighlight = ''#10B981''"

definition oneColor :: string where
  "oneColor = ''#3B82F6''"

text \<open>The layout: \<^verbatim>\<open>cellSize\<close>, \<^verbatim>\<open>cellGap\<close>, \<^verbatim>\<open>totalCellW\<close>; \<^verbatim>\<open>startY\<close> is 40.\<close>

definition cellSize :: "real \<Rightarrow> real \<Rightarrow> int \<Rightarrow> real" where
  "cellSize w h rows =
     min 48 (max 32 (min (w / real_of_int (rows + 2)) ((h - 60) / real_of_int (rows + 1))))"

definition cellGap :: "real \<Rightarrow> real" where
  "cellGap sz = sz * 0.25"

definition totalCellW :: "real \<Rightarrow> real" where
  "totalCellW sz = sz + cellGap sz"

record position =
  pos_x :: real
  pos_y :: real
  pos_row :: nat
  pos_col :: nat
  pos_value :: jsval

text \<open>
  A counting loop whose body appends to the output or throws: the outputs of the iterations
  in order, or the first error.
\<close>

fun for_each :: "('a \<Rightarrow> error + 'b list) \<Rightarrow> 'a list \<Rightarrow> error + 'b list" where
  "for_each body [] = Inr []"
| "for_each body (x # xs) =
     (case body x of
        Inl e \<Rightarrow> Inl e
      | Inr ys \<Rightarrow> (case for_each body xs of Inl e \<Rightarrow> Inl e | Inr zs \<Rightarrow> Inr (ys @ zs)))"

text \<open>
  The first loop fills \<^verbatim>\<open>positions\<close>. \<open>trow\<close> is \<^verbatim>\<open>triangle[r]\<close>. (The loop also counts
  \<^verbatim>\<open>stepIdx\<close>, which is set to 0 again before it is read.)
\<close>

definition row_positions :: "real \<Rightarrow> real \<Rightarrow> nat \<Rightarrow> jsval list \<Rightarrow> position list" where
  "row_positions w sz r trow =
     (let rowWidth = real (length trow) * totalCellW sz - cellGap sz;
          xStart = (w - rowWidth) / 2
      in map (\<lambda>c. \<lparr>pos_x = xStart + real c * totalCellW sz + sz / 2,
                    pos_y = 40 + real r * (sz + cellGap sz * 2) + sz / 2,
                    pos_row = r, pos_col = c, pos_value = elem_at trow c\<rparr>)
             [0..<length trow])"

definition positions_loop :: "real \<Rightarrow> real \<Rightarrow> int \<Rightarrow> jsval list list \<Rightarrow> error + position list" where
  "positions_loop w sz rows triangle =
     for_each (\<lambda>r. case row_at triangle r of
                      None \<Rightarrow> Inl TypeError
                    | Some trow \<Rightarrow> Inr (row_positions w sz r trow))
              [0..<nat rows]"

text \<open>\<^verbatim>\<open>positions.find(p => p.row === r && p.col === c)\<close>.\<close>

definition find_position :: "position list \<Rightarrow> nat \<Rightarrow> nat \<Rightarrow> position option" where
  "find_position positions r c = find (\<lambda>p. pos_row p = r \<and> pos_col p = c) positions"

text \<open>\<^verbatim>\<open>activeAddition && activeAddition.row === r && activeAddition.col === c\<close>.\<close>

definition is_active :: "cell option \<Rightarrow> nat \<Rightarrow> nat \<Rightarrow> bool" where
  "is_active activeAddition r c =
     (case activeAddition of None \<Rightarrow> False | Some a \<Rightarrow> row a = r \<and> col a = c)"

text \<open>
  The second loop draws the arrows. \<^verbatim>\<open>cellStepIdx\<close> is the sum of the lengths of the rows
  before \<open>r\<close>, plus \<open>c\<close>.
\<close>

fun rows_length_sum :: "jsval list list \<Rightarrow> nat list \<Rightarrow> error + nat" where
  "rows_length_sum triangle [] = Inr 0"
| "rows_length_sum triangle (rr # rrs) =
     (case row_at triangle rr of
        None \<Rightarrow> Inl TypeError
      | Some trow \<Rightarrow>
          (case rows_length_sum triangle rrs of Inl e \<Rightarrow> Inl e | Inr k \<Rightarrow> Inr (length trow + k)))"

definition arrows_cell ::
  "bool \<Rightarrow> real \<Rightarrow> position list \<Rightarrow> int \<Rightarrow> cell option \<Rightarrow> nat \<Rightarrow> nat \<Rightarrow> nat \<Rightarrow> nat \<Rightarrow> canvas_op list" where
  "arrows_cell isDark sz positions k activeAddition r c rowlen cellStepIdx =
     (if k < int cellStepIdx then []
      else
        (case find_position positions r c of
           None \<Rightarrow> []
         | Some child \<Rightarrow>
             (if 0 < c then
                (case find_position positions (r - 1) (c - 1) of
                   None \<Rightarrow> []
                 | Some leftParent \<Rightarrow>
                     [DrawArrow (pos_x leftParent) (pos_y leftParent + sz / 2 + 2)
                        (pos_x child - sz * 0.15) (pos_y child - sz / 2 - 2)
                        (if is_active activeAddition r c then additionHighlight else arrowColor isDark)
                        (if is_active activeAddition r c then 2.5 else 1.5)
                        (if is_active activeAddition r c then 1 else 0.4)])
              else []) @
             (if int c < int rowlen - 1 then
                (case find_position positions (r - 1) c of
                   None \<Rightarrow> []
                 | Some rightParent \<Rightarrow>
                     [DrawArrow (pos_x rightParent) (pos_y rightParent + sz / 2 + 2)
                        (pos_x child + sz * 0.15) (pos_y child - sz / 2 - 2)
                        (if is_active activeAddition r c then additionHighlight else arrowColor isDark)
                        (if is_active activeAddition r c then 2.5 else 1.5)
                        (if is_active activeAddition r c then 1 else 0.4)])
              else [])))"

definition arrows_loop ::
  "bool \<Rightarrow> real \<Rightarrow> int \<Rightarrow> jsval list list \<Rightarrow> position list \<Rightarrow> int \<Rightarrow> cell option \<Rightarrow> error + canvas_op list" where
  "arrows_loop isDark sz rows triangle positions k activeAddition =
     for_each
       (\<lambda>r. case row_at triangle r of
               None \<Rightarrow> Inl TypeError
             | Some trow \<Rightarrow>
                 for_each
                   (\<lambda>c. case rows_length_sum triangle [0..<r] of
                           Inl e \<Rightarrow> Inl e
                         | Inr skipped \<Rightarrow>
                             Inr (arrows_cell isDark sz positions k activeAddition r c
                                    (length trow) (skipped + c)))
                   [0..<length trow])
       [1..<nat rows]"


text \<open>
  The third loop draws the cells. A cell that is not visible yet gets the placeholder; a
  visible cell gets its background, border and number, and the formula when it is the active
  addition and the current step.
\<close>

definition placeholder_ops :: "bool \<Rightarrow> real \<Rightarrow> position \<Rightarrow> canvas_op list" where
  "placeholder_ops isDark sz pos =
     [FillStyle (if isDark then ''#1E293B40'' else ''#E2E8F040''),
      RoundRect (pos_x pos - sz / 2) (pos_y pos - sz / 2) sz sz 8,
      Fill,
      FillStyle (dimTextColor isDark),
      Font 600 (sz * 0.3),
      TextAlign ''center'',
      TextBaseline ''middle'',
      FillText ''?'' (pos_x pos) (pos_y pos)]"

definition revealed_ops ::
  "bool \<Rightarrow> real \<Rightarrow> position \<Rightarrow> jsval \<Rightarrow> bool \<Rightarrow> bool \<Rightarrow> bool \<Rightarrow> canvas_op list" where
  "revealed_ops isDark sz pos v isCurrentStep isActive isOne =
     [Save] @
     (if isCurrentStep then [ShadowColor accentColor, ShadowBlur 16] else []) @
     [FillStyle (if isCurrentStep then (if isDark then ''#78350F'' else ''#FEF3C7'')
                 else if isActive then (if isDark then ''#064E3B'' else ''#D1FAE5'')
                 else cellBg isDark),
      RoundRect (pos_x pos - sz / 2) (pos_y pos - sz / 2) sz sz 8,
      Fill,
      Restore,
      StrokeStyle (if isCurrentStep then accentColor
                   else if isActive then additionHighlight
                   else if isOne then oneColor
                   else cellBorder isDark),
      LineWidth (if isCurrentStep then 2.5 else if isActive then 2 else 1.5),
      RoundRect (pos_x pos - sz / 2) (pos_y pos - sz / 2) sz sz 8,
      Stroke,
      FillStyle (if isCurrentStep then accentColor
                 else if isActive then additionHighlight
                 else if isOne then oneColor
                 else textColor isDark),
      Font 700 (sz * 0.4),
      TextAlign ''center'',
      TextBaseline ''middle'',
      FillText (js_string v) (pos_x pos) (pos_y pos)]"

definition formula_ops ::
  "real \<Rightarrow> position \<Rightarrow> jsval list list \<Rightarrow> nat \<Rightarrow> nat \<Rightarrow> jsval \<Rightarrow> error + canvas_op list" where
  "formula_ops sz pos triangle r c v =
     (case row_at triangle (r - 1) of
        None \<Rightarrow> Inl TypeError
      | Some prev \<Rightarrow>
          Inr [FillStyle additionHighlight,
               Font 800 (sz * 0.38),
               TextAlign ''center'',
               TextBaseline ''top'',
               FillText (js_string (elem_at prev (c - 1)) @ '' + '' @ js_string (elem_at prev c)
                           @ '' = '' @ js_string v)
                        (pos_x pos) (pos_y pos + sz / 2 + 8)])"

definition draw_cell ::
  "bool \<Rightarrow> real \<Rightarrow> jsval list list \<Rightarrow> position list \<Rightarrow> int \<Rightarrow> cell option \<Rightarrow>
     nat \<Rightarrow> jsval list \<Rightarrow> nat \<Rightarrow> nat \<Rightarrow> error + canvas_op list" where
  "draw_cell isDark sz triangle positions k activeAddition r trow c stepIdx =
     (case find_position positions r c of
        None \<Rightarrow> Inr []
      | Some pos \<Rightarrow>
          (let isVisible = (int stepIdx \<le> k);
               isCurrentStep = (int stepIdx = k);
               isActive = is_active activeAddition r c;
               isOne = (elem_at trow c = Num 1)
           in if \<not> isVisible then Inr (placeholder_ops isDark sz pos)
              else if isActive \<and> isCurrentStep \<and> 0 < r \<and> 0 < c \<and> c < r then
                (case formula_ops sz pos triangle r c (elem_at trow c) of
                   Inl e \<Rightarrow> Inl e
                 | Inr formula \<Rightarrow>
                     Inr (revealed_ops isDark sz pos (elem_at trow c) isCurrentStep isActive isOne
                            @ formula))
              else Inr (revealed_ops isDark sz pos (elem_at trow c) isCurrentStep isActive isOne)))"

text \<open>
  The loops over the cells carry \<^verbatim>\<open>stepIdx\<close>, which every path through the body increments
  once. They return the operations and the final \<^verbatim>\<open>stepIdx\<close>.
\<close>

fun cells_row ::
  "(nat \<Rightarrow> nat \<Rightarrow> error + canvas_op list) \<Rightarrow> nat list \<Rightarrow> nat \<Rightarrow> error + canvas_op list \<times> nat" where
  "cells_row cellf [] stepIdx = Inr ([], stepIdx)"
| "cells_row cellf (c # cs) stepIdx =
     (case cellf c stepIdx of
        Inl e \<Rightarrow> Inl e
      | Inr ops \<Rightarrow>
          (case cells_row cellf cs (stepIdx + 1) of
             Inl e \<Rightarrow> Inl e
           | Inr (rest, n) \<Rightarrow> Inr (ops @ rest, n)))"

fun cells_loop ::
  "(nat \<Rightarrow> jsval list \<Rightarrow> nat \<Rightarrow> nat \<Rightarrow> error + canvas_op list) \<Rightarrow> jsval list list \<Rightarrow> nat list \<Rightarrow> nat \<Rightarrow>
     error + canvas_op list \<times> nat" where
  "cells_loop cellf triangle [] stepIdx = Inr ([], stepIdx)"
| "cells_loop cellf triangle (r # rs) stepIdx =
     (case row_at triangle r of
        None \<Rightarrow> Inl TypeError
      | Some trow \<Rightarrow>
          (case cells_row (cellf r trow) [0..<length trow] stepIdx of
             Inl e \<Rightarrow> Inl e
           | Inr (ops, n) \<Rightarrow>
               (case cells_loop cellf triangle rs n of
                  Inl e \<Rightarrow> Inl e
                | Inr (rest, n') \<Rightarrow> Inr (ops @ rest, n'))))"

text \<open>
  The progress readout, \<^verbatim>\<open>Math.min(100, Math.round(((currentStep + 1) / total) * 100))\<close>. The
  quotient and the product are doubles: \<open>round_double\<close> rounds a rational number to 53
  significant bits, ties to the even significand (the quotient of two integers below
  \<open>2^53\<close> and its product with 100 are far from the smallest and the largest doubles).
  \<^verbatim>\<open>Math.round(x)\<close> is \<open>\<lfloor>x + 1/2\<rfloor>\<close>. A division by \<^verbatim>\<open>total = 0\<close>, which needs
  \<^verbatim>\<open>currentStep >= 0\<close>, gives \<^verbatim>\<open>Infinity\<close> and then \<^verbatim>\<open>Math.min(100, Infinity) = 100\<close>. The first
  letter of the label is U+00C9, two bytes in UTF-8.
\<close>

definition pow2 :: "int \<Rightarrow> rat" where
  "pow2 e = (if 0 \<le> e then 2 ^ nat e else 1 / 2 ^ nat (- e))"

text \<open>For \<open>a > 0\<close>, the integer \<open>l\<close> with \<open>2^l \<le> a < 2^(l+1)\<close>.\<close>

definition floor_log2 :: "rat \<Rightarrow> int" where
  "floor_log2 a =
     (case quotient_of a of
        (p, q) \<Rightarrow>
          (let d = int (bit_length p) - int (bit_length q)
           in if pow2 d \<le> a then d else d - 1))"

definition round_double :: "rat \<Rightarrow> rat" where
  "round_double x =
     (if x = 0 then 0
      else
        (let a = \<bar>x\<bar>;
             e = floor_log2 a - 52;
             y = a / pow2 e;
             m = \<lfloor>y\<rfloor>;
             f = y - of_int m;
             m' = (if 1 / 2 < f \<or> (f = 1 / 2 \<and> odd m) then m + 1 else m)
         in sgn x * (of_int m' * pow2 e)))"

definition js_round :: "rat \<Rightarrow> int" where
  "js_round x = \<lfloor>x + 1 / 2\<rfloor>"

definition progress :: "int \<Rightarrow> int \<Rightarrow> int" where
  "progress k tot =
     (if k < 0 then 0
      else if tot = 0 then 100
      else min 100
             (js_round (round_double (round_double (of_int (round53 (k + 1)) / of_int tot) * 100))))"

definition title_text :: "int \<Rightarrow> int \<Rightarrow> string" where
  "title_text k tot =
     [CHR 0xC3, CHR 0x89] @ ''tape '' @ string_of_int (max 0 (k + 1)) @ '' / '' @ string_of_int tot
       @ ''  ('' @ string_of_int (progress k tot) @ ''%)''"

definition title_ops :: "bool \<Rightarrow> real \<Rightarrow> int \<Rightarrow> int \<Rightarrow> canvas_op list" where
  "title_ops isDark w k tot =
     [FillStyle (dimTextColor isDark),
      Font 500 12,
      TextAlign ''right'',
      TextBaseline ''top'',
      FillText (title_text k tot) (w - 16) 12]"

text \<open>
  \<^verbatim>\<open>draw\<close>. It returns early without the canvas, its parent or the 2D context. When an
  exception is thrown the model keeps only the exception.
\<close>

definition draw ::
  "dom \<Rightarrow> bool \<Rightarrow> int \<Rightarrow> jsval list list \<Rightarrow> int \<Rightarrow> cell option \<Rightarrow> int \<Rightarrow> error + canvas_op list" where
  "draw d isDark rows triangle k activeAddition tot =
     (if \<not> has_canvas d then Inr []
      else if \<not> has_parent d then Inr []
      else
        (let dpr = (if devicePixelRatio d = 0 then 1 else devicePixelRatio d);
             w = clientWidth d;
             h = clientHeight d;
             resize = [CanvasSize (w * dpr) (h * dpr), CanvasStyleSize w h]
         in if \<not> has_context d then Inr resize
            else
              (let sz = cellSize w h rows
               in case positions_loop w sz rows triangle of
                    Inl e \<Rightarrow> Inl e
                  | Inr positions \<Rightarrow>
                      (case arrows_loop isDark sz rows triangle positions k activeAddition of
                         Inl e \<Rightarrow> Inl e
                       | Inr arrows \<Rightarrow>
                           (case cells_loop (draw_cell isDark sz triangle positions k activeAddition)
                                   triangle [0..<nat rows] 0 of
                              Inl e \<Rightarrow> Inl e
                            | Inr (cells, n) \<Rightarrow>
                                Inr (resize
                                     @ [Scale dpr dpr, FillStyle (bgColor isDark), FillRect 0 0 w h]
                                     @ arrows @ cells @ title_ops isDark w k tot))))))"

text \<open>
  The component body computes \<^verbatim>\<open>triangle = buildPascal(rows)\<close> and \<^verbatim>\<open>total = totalSteps(rows)\<close>
  on every render and \<^verbatim>\<open>draw\<close> closes over them.
\<close>

definition component_draw :: "dom \<Rightarrow> bool \<Rightarrow> int \<Rightarrow> int \<Rightarrow> cell option \<Rightarrow> error + canvas_op list" where
  "component_draw d isDark rows k activeAddition =
     (case buildPascal rows of
        Inl e \<Rightarrow> Inl e
      | Inr triangle \<Rightarrow> draw d isDark rows triangle k activeAddition (totalSteps rows))"

text \<open>The texts that a list of operations writes with \<^verbatim>\<open>fillText\<close>, in order.\<close>

fun op_text :: "canvas_op \<Rightarrow> string list" where
  "op_text (FillText s x y) = [s]"
| "op_text _ = []"

definition texts :: "canvas_op list \<Rightarrow> string list" where
  "texts ops = concat (map op_text ops)"


section \<open>Reference notions for the statements\<close>

text \<open>
  Row \<open>r\<close> of Pascal's triangle as binomial coefficients, and the first step of row \<open>r\<close> in
  the row-major numbering of the cells, \<open>r (r + 1) / 2\<close>.
\<close>

definition binom_row :: "nat \<Rightarrow> jsval list" where
  "binom_row r = map (\<lambda>c. Num (int (r choose c))) [0..<Suc r]"

definition row_start :: "nat \<Rightarrow> nat" where
  "row_start r = r * (r + 1) div 2"

text \<open>
  The rows that the loops of \<open>buildPascal\<close> compute, with the additions of doubles: row 0 is
  \<open>[1]\<close>, and row \<open>r\<close> is 1, the sums of the neighbours in the row above, and 1.
\<close>

definition next_row :: "jsval list \<Rightarrow> nat \<Rightarrow> jsval list" where
  "next_row prev r =
     Num 1 # map (\<lambda>c. js_add (elem_at prev (c - 1)) (elem_at prev c)) [1..<r] @ [Num 1]"

fun pascal_row :: "nat \<Rightarrow> jsval list" where
  "pascal_row 0 = [Num 1]"
| "pascal_row (Suc r) = next_row (pascal_row r) (Suc r)"

definition pascal_rows :: "nat \<Rightarrow> jsval list list" where
  "pascal_rows n = map pascal_row [0..<n]"

definition pascal_entry :: "nat \<Rightarrow> nat \<Rightarrow> jsval" where
  "pascal_entry r c = elem_at (pascal_row r) c"


text \<open>
  The invariant of the controller: the step index lies in \<open>[-1, totalSteps rows - 1]\<close> and the
  reference \<open>lastStepTrigger\<close> is in step with the page's \<open>pascalStepTrigger\<close> between events.
\<close>

definition step_inv :: "system \<Rightarrow> bool" where
  "step_inv s \<longleftrightarrow>
     - 1 \<le> currentStep s \<and> currentStep s \<le> totalSteps (pascalRows s) - 1 \<and>
     lastStepTrigger s = pascalStepTrigger s"


text \<open>
  The frame that \<open>draw\<close> produces for the triangle of \<open>buildPascal\<close>, written in closed
  form: the position of the cell \<open>(r, c)\<close> (row \<open>r\<close> has \<open>r + 1\<close> cells), all positions in
  row-major order, the operations before the loops, the operations for one cell, whose step
  index is \<open>row_start r + c\<close>, the texts among them, and the list of the cells' operations in
  row-major order, one entry per cell.
\<close>

definition cell_position :: "real \<Rightarrow> real \<Rightarrow> nat \<Rightarrow> nat \<Rightarrow> position" where
  "cell_position w sz r c =
     \<lparr>pos_x = (w - (real (Suc r) * totalCellW sz - cellGap sz)) / 2 + real c * totalCellW sz + sz / 2,
      pos_y = 40 + real r * (sz + cellGap sz * 2) + sz / 2,
      pos_row = r, pos_col = c, pos_value = pascal_entry r c\<rparr>"

definition pascal_positions :: "real \<Rightarrow> real \<Rightarrow> nat \<Rightarrow> position list" where
  "pascal_positions w sz n = concat (map (\<lambda>r. map (cell_position w sz r) [0..<Suc r]) [0..<n])"

definition header_ops :: "dom \<Rightarrow> bool \<Rightarrow> canvas_op list" where
  "header_ops d isDark =
     (let dpr = (if devicePixelRatio d = 0 then 1 else devicePixelRatio d);
          w = clientWidth d;
          h = clientHeight d
      in [CanvasSize (w * dpr) (h * dpr), CanvasStyleSize w h, Scale dpr dpr,
          FillStyle (bgColor isDark), FillRect 0 0 w h])"

definition cell_ops :: "bool \<Rightarrow> real \<Rightarrow> real \<Rightarrow> int \<Rightarrow> cell option \<Rightarrow> nat \<Rightarrow> nat \<Rightarrow> canvas_op list" where
  "cell_ops isDark w sz k activeAddition r c =
     (if k < int (row_start r + c) then placeholder_ops isDark sz (cell_position w sz r c)
      else
        revealed_ops isDark sz (cell_position w sz r c) (pascal_entry r c)
          (int (row_start r + c) = k) (is_active activeAddition r c) (pascal_entry r c = Num 1)
        @ (if is_active activeAddition r c \<and> int (row_start r + c) = k \<and> 0 < r \<and> 0 < c \<and> c < r then
             [FillStyle additionHighlight,
              Font 800 (sz * 0.38),
              TextAlign ''center'',
              TextBaseline ''top'',
              FillText (js_string (pascal_entry (r - 1) (c - 1)) @ '' + ''
                          @ js_string (pascal_entry (r - 1) c) @ '' = ''
                          @ js_string (pascal_entry r c))
                       (pos_x (cell_position w sz r c)) (pos_y (cell_position w sz r c) + sz / 2 + 8)]
           else []))"

definition cell_texts :: "int \<Rightarrow> cell option \<Rightarrow> nat \<Rightarrow> nat \<Rightarrow> string list" where
  "cell_texts k activeAddition r c =
     (if k < int (row_start r + c) then [''?'']
      else
        js_string (pascal_entry r c)
        # (if is_active activeAddition r c \<and> int (row_start r + c) = k \<and> 0 < r \<and> 0 < c \<and> c < r then
             [js_string (pascal_entry (r - 1) (c - 1)) @ '' + ''
                @ js_string (pascal_entry (r - 1) c) @ '' = ''
                @ js_string (pascal_entry r c)]
           else []))"

definition frame_cells :: "bool \<Rightarrow> real \<Rightarrow> real \<Rightarrow> int \<Rightarrow> cell option \<Rightarrow> nat \<Rightarrow> canvas_op list list" where
  "frame_cells isDark w sz k activeAddition n =
     concat (map (\<lambda>r. map (cell_ops isDark w sz k activeAddition r) [0..<Suc r]) [0..<n])"


section \<open>Rounding\<close>

lemma round53_exact: "\<bar>x\<bar> \<le> 2 ^ 53 \<Longrightarrow> round53 x = x"
  by (simp add: round53_def)


lemma round53_nonneg: "0 \<le> x \<Longrightarrow> 0 \<le> round53 x"
  by (simp add: round53_def Let_def sgn_if pos_imp_zdiv_nonneg_iff)



section \<open>The triangle\<close>


lemma length_next_row: "0 < r \<Longrightarrow> length (next_row prev r) = Suc r"
  by (simp add: next_row_def)

lemma length_pascal_row [simp]: "length (pascal_row r) = Suc r"
  by (cases r) (simp_all add: length_next_row)

lemma length_pascal_rows [simp]: "length (pascal_rows n) = n"
  by (simp add: pascal_rows_def)

lemma pascal_rows_Suc: "pascal_rows (Suc r) = pascal_rows r @ [pascal_row r]"
  by (simp add: pascal_rows_def)

lemma row_at_pascal_rows: "k < r \<Longrightarrow> row_at (pascal_rows r) k = Some (pascal_row k)"
  by (simp add: row_at_def pascal_rows_def del: upt_Suc)


text \<open>The inner loop keeps the invariant that \<open>row\<close> holds the first \<open>c\<close> entries of the next row.\<close>

lemma build_row_next:
  assumes prev: "row_at triangle (r - 1) = Some prev"
    and "0 < c" "c \<le> r"
  shows "build_row triangle r c
           (Num 1 # map (\<lambda>c. js_add (elem_at prev (c - 1)) (elem_at prev c)) [1..<c])
         = Inr (Num 1 # map (\<lambda>c. js_add (elem_at prev (c - 1)) (elem_at prev c)) [1..<r])"
  using assms(2,3)
proof (induction "r - c" arbitrary: c)
  case 0
  then have "c = r" by simp
  then show ?case by (subst build_row.simps) simp
next
  case (Suc d)
  then have lt: "c < r" by simp
  have d: "d = r - Suc c" using Suc.hyps(2) by simp
  have ih: "build_row triangle r (Suc c)
           (Num 1 # map (\<lambda>c. js_add (elem_at prev (c - 1)) (elem_at prev c)) [1..<Suc c])
         = Inr (Num 1 # map (\<lambda>c. js_add (elem_at prev (c - 1)) (elem_at prev c)) [1..<r])"
    using lt by (intro Suc.hyps(1)[OF d]) simp_all
  have snoc: "[1..<Suc c] = [1..<c] @ [c]" using Suc.prems(1) by simp
  show ?case
    by (subst build_row.simps) (use lt prev ih snoc in simp)
qed



lemma build_row_full:
  assumes "row_at triangle (r - 1) = Some prev" "0 < r"
  shows "build_row triangle r 1 [Num 1]
         = Inr (Num 1 # map (\<lambda>c. js_add (elem_at prev (c - 1)) (elem_at prev c)) [1..<r])"
  using build_row_next[OF assms(1), of 1] assms(2) by simp

text \<open>The outer loop keeps the invariant that \<open>triangle\<close> holds the rows \<open>0..r-1\<close>.\<close>

lemma build_rows_pascal:
  assumes "0 < r"
  shows "build_rows n r (pascal_rows r) = Inr (pascal_rows (max r (nat n)))"
  using assms
proof (induction "nat n - r" arbitrary: r)
  case 0
  then have "\<not> int r < n" by simp
  moreover have "max r (nat n) = r" using 0 by simp
  ultimately show ?case by (subst build_rows.simps) simp
next
  case (Suc d)
  then have lt: "int r < n" by simp
  obtain r' where r': "r = Suc r'" using Suc.prems by (cases r) auto
  have prev: "row_at (pascal_rows r) (r - 1) = Some (pascal_row r')"
    by (simp add: r' row_at_pascal_rows)
  have row: "build_row (pascal_rows r) r 1 [Num 1]
             = Inr (Num 1 # map (\<lambda>c. js_add (elem_at (pascal_row r') (c - 1)) (elem_at (pascal_row r') c)) [1..<r])"
    using prev Suc.prems by (rule build_row_full)
  have nxt: "(Num 1 # map (\<lambda>c. js_add (elem_at (pascal_row r') (c - 1)) (elem_at (pascal_row r') c)) [1..<r])
               @ [Num 1] = pascal_row r"
    by (simp add: r' next_row_def)
  have d: "d = nat n - Suc r" using Suc.hyps(2) by simp
  have ih: "build_rows n (Suc r) (pascal_rows (Suc r)) = Inr (pascal_rows (max (Suc r) (nat n)))"
    by (rule Suc.hyps(1)[OF d]) simp
  have mx: "max (Suc r) (nat n) = max r (nat n)" using lt by simp
  show ?case
    by (subst build_rows.simps)
       (simp only: lt if_True row sum.case nxt pascal_rows_Suc[symmetric] Suc_eq_plus1[symmetric] ih mx)
qed

lemma buildPascal_pascal_rows: "buildPascal n = Inr (pascal_rows (max 1 (nat n)))"
  using build_rows_pascal[of 1 n] by (simp add: buildPascal_def pascal_rows_def)

lemma buildPascal_rows: "1 \<le> n \<Longrightarrow> buildPascal n = Inr (pascal_rows (nat n))"
proof -
  assume "1 \<le> n"
  then have mx: "max 1 (nat n) = nat n" by simp
  show ?thesis unfolding buildPascal_pascal_rows[of n] mx by simp
qed

subsection \<open>Binomial coefficients\<close>

lemma length_binom_row [simp]: "length (binom_row r) = Suc r"
  by (simp add: binom_row_def)



















section \<open>The step numbering\<close>

lemma row_start_0 [simp]: "row_start 0 = 0"
  by (simp add: row_start_def)

lemma row_start_Suc: "row_start (Suc r) = row_start r + r + 1"
proof -
  have "even (r * (r + 1))" by simp
  then obtain k where k: "r * (r + 1) = 2 * k" by (elim evenE)
  have "Suc r * (Suc r + 1) = 2 * (k + r + 1)" using k by (simp add: algebra_simps)
  then have "Suc r * (Suc r + 1) div 2 = k + r + 1" by simp
  moreover have "r * (r + 1) div 2 = k" using k by simp
  ultimately show ?thesis by (simp only: row_start_def)
qed

lemma row_start_mono: "r \<le> R \<Longrightarrow> row_start r \<le> row_start R"
  unfolding row_start_def by (intro div_le_mono mult_le_mono) simp_all

lemma row_start_ge: "r \<le> row_start r"
  by (induction r) (simp_all add: row_start_Suc)

subsection \<open>The count of the steps\<close>

lemma totalSteps_loop_snoc:
  "r \<le> m \<Longrightarrow>
     totalSteps_loop (int (Suc m)) r count
     = round53 (totalSteps_loop (int m) r count + (int m + 1))"
proof (induction "m - r" arbitrary: r count)
  case 0
  then have r: "r = m" by simp
  have a: "totalSteps_loop (int m) m count = count"
    by (subst totalSteps_loop.simps) simp
  have b: "totalSteps_loop (int (Suc m)) (m + 1) (round53 (count + (int m + 1)))
           = round53 (count + (int m + 1))"
    by (subst totalSteps_loop.simps) simp
  have "totalSteps_loop (int (Suc m)) m count = round53 (count + (int m + 1))"
    by (subst totalSteps_loop.simps) (simp only: b, simp)
  then show ?case by (simp only: r a)
next
  case (Suc d)
  then have lt: "r < m" by simp
  have d: "d = m - Suc r" using Suc.hyps(2) by simp
  have ih: "totalSteps_loop (int (Suc m)) (Suc r) (round53 (count + (int r + 1)))
      = round53 (totalSteps_loop (int m) (Suc r) (round53 (count + (int r + 1))) + (int m + 1))"
    using lt by (intro Suc.hyps(1)[OF d]) simp
  have l: "totalSteps_loop (int (Suc m)) r count
           = totalSteps_loop (int (Suc m)) (Suc r) (round53 (count + (int r + 1)))"
    using lt by (subst totalSteps_loop.simps) simp
  have rr: "totalSteps_loop (int m) r count
           = totalSteps_loop (int m) (Suc r) (round53 (count + (int r + 1)))"
    using lt by (subst totalSteps_loop.simps) simp
  show ?case by (simp only: l rr ih)
qed

lemma totalSteps_Suc: "totalSteps (int (Suc m)) = round53 (totalSteps (int m) + (int m + 1))"
  unfolding totalSteps_def by (rule totalSteps_loop_snoc) simp

lemma totalSteps_nonpos: "rows \<le> 0 \<Longrightarrow> totalSteps rows = 0"
  unfolding totalSteps_def by (subst totalSteps_loop.simps) simp

lemma totalSteps_nat_nonneg: "0 \<le> totalSteps (int m)"
proof (induction m)
  case 0
  show ?case by (simp add: totalSteps_nonpos)
next
  case (Suc m)
  then show ?case by (simp only: totalSteps_Suc) (rule round53_nonneg, simp)
qed

lemma totalSteps_nonneg: "0 \<le> totalSteps rows"
proof (cases "rows \<le> 0")
  case True
  then show ?thesis by (simp add: totalSteps_nonpos)
next
  case False
  then have "rows = int (nat rows)" by simp
  then show ?thesis using totalSteps_nat_nonneg[of "nat rows"] by simp
qed


lemma row_start_134217727: "row_start 134217727 = 9007199187632128"
  by (simp add: row_start_def)

lemma totalSteps_exact: "m \<le> 134217727 \<Longrightarrow> totalSteps (int m) = int (row_start m)"
proof (induction m)
  case 0
  show ?case by (simp add: totalSteps_nonpos)
next
  case (Suc m)
  then have ih: "totalSteps (int m) = int (row_start m)" by simp
  have "row_start (Suc m) \<le> row_start 134217727" using Suc.prems by (rule row_start_mono)
  then have "int (row_start (Suc m)) \<le> 2 ^ 53" by (simp add: row_start_134217727)
  then have "round53 (int (row_start (Suc m))) = int (row_start (Suc m))"
    by (intro round53_exact) simp
  moreover have "int (row_start m) + (int m + 1) = int (row_start (Suc m))"
    by (simp add: row_start_Suc)
  ultimately show ?case by (simp only: totalSteps_Suc ih)
qed

lemma totalSteps_134217728: "totalSteps 134217728 = 9007199321849856"
proof -
  have "totalSteps (int (Suc 134217727)) = round53 (totalSteps (int 134217727) + (int 134217727 + 1))"
    by (rule totalSteps_Suc)
  also have "totalSteps (int 134217727) = int (row_start 134217727)"
    by (rule totalSteps_exact) simp
  also have "int (row_start 134217727) + (int 134217727 + 1) = 9007199321849856"
    by (simp add: row_start_134217727)
  also have "round53 9007199321849856 = 9007199321849856" by code_simp
  finally show ?thesis by simp
qed

lemma totalSteps_134217729: "totalSteps 134217729 = 9007199456067584"
proof -
  have "totalSteps (int (Suc 134217728)) = round53 (totalSteps (int 134217728) + (int 134217728 + 1))"
    by (rule totalSteps_Suc)
  also have "totalSteps (int 134217728) = 9007199321849856"
    using totalSteps_134217728 by simp
  also have "9007199321849856 + (int 134217728 + 1) = 9007199456067585" by simp
  also have "round53 9007199456067585 = 9007199456067584" by code_simp
  finally show ?thesis by simp
qed

subsection \<open>The increment of a counter\<close>

lemma js_inc_Suc: "s < 2 ^ 53 \<Longrightarrow> js_inc s = Suc s"
proof -
  assume "s < 2 ^ 53"
  then have "int s < 2 ^ 53" by (metis of_nat_less_iff of_nat_numeral of_nat_power)
  then have "\<bar>int s + 1\<bar> \<le> 2 ^ 53" by simp
  then have "round53 (int s + 1) = int s + 1" by (rule round53_exact)
  then show ?thesis by (simp add: js_inc_def)
qed

lemma js_inc_stuck: "js_inc (2 ^ 53) = 2 ^ 53"
proof -
  have "round53 9007199254740993 = 9007199254740992" by code_simp
  then show ?thesis by (simp add: js_inc_def)
qed

lemma js_inc_le: "s \<le> 2 ^ 53 \<Longrightarrow> js_inc s \<le> 2 ^ 53"
proof (cases "s < 2 ^ 53")
  case True
  then show ?thesis by (simp add: js_inc_Suc)
next
  case False
  assume "s \<le> 2 ^ 53"
  with False have "s = 2 ^ 53" by simp
  then show ?thesis by (simp only: js_inc_stuck)
qed

subsection \<open>The search of the cell\<close>

lemma stepToCell_loop_in_row:
  "c + k \<le> r \<Longrightarrow> r < 2 ^ 53 \<Longrightarrow> s + k \<le> 2 ^ 53 \<Longrightarrow>
     stepToCell_loop (int (s + k)) r c s = Some \<lparr>row = r, col = c + k\<rparr>"
proof (induction k arbitrary: c s)
  case 0
  then show ?case by (subst stepToCell_loop.simps) simp
next
  case (Suc k)
  have c: "js_inc c = Suc c" using Suc.prems by (intro js_inc_Suc) simp
  have s: "js_inc s = Suc s" using Suc.prems by (intro js_inc_Suc) simp
  have "stepToCell_loop (int (Suc s + k)) r (Suc c) (Suc s) = Some \<lparr>row = r, col = Suc c + k\<rparr>"
    using Suc.prems by (intro Suc.IH) simp_all
  then show ?case
    by (subst stepToCell_loop.simps) (use Suc.prems in \<open>simp add: c s\<close>)
qed

lemma stepToCell_loop_skip_row:
  "c \<le> Suc r \<Longrightarrow> r < 2 ^ 53 \<Longrightarrow> int (s + (Suc r - c)) \<le> step \<Longrightarrow> s + (Suc r - c) \<le> 2 ^ 53 \<Longrightarrow>
     stepToCell_loop step r c s = stepToCell_loop step (Suc r) 0 (s + (Suc r - c))"
proof (induction "Suc r - c" arbitrary: c s)
  case 0
  then have "c = Suc r" by simp
  moreover have "js_inc r = Suc r" using 0 by (intro js_inc_Suc)
  ultimately show ?case by (subst stepToCell_loop.simps) simp
next
  case (Suc d)
  then have le: "c \<le> r" by simp
  have ne: "int s \<noteq> step" using Suc.prems(3) Suc.hyps(2) by simp
  have d: "d = Suc r - Suc c" using Suc.hyps(2) by simp
  have eq: "Suc s + (Suc r - Suc c) = s + (Suc r - c)" using le by simp
  have jc: "js_inc c = Suc c" using le Suc.prems(2) by (intro js_inc_Suc) simp
  have js: "js_inc s = Suc s" using le Suc.prems(4) by (intro js_inc_Suc) simp
  have "stepToCell_loop step r (Suc c) (Suc s) = stepToCell_loop step (Suc r) 0 (Suc s + (Suc r - Suc c))"
    using le Suc.prems(2,3,4) by (intro Suc.hyps(1)[OF d]) (simp_all only: eq Suc_le_mono)
  then have ih: "stepToCell_loop step r (Suc c) (Suc s) = stepToCell_loop step (Suc r) 0 (s + (Suc r - c))"
    by (simp only: eq)
  show ?case
    by (subst stepToCell_loop.simps) (simp only: le ne if_True if_False ih jc js)
qed

lemma stepToCell_loop_rows:
  "r \<le> R \<Longrightarrow> C \<le> R \<Longrightarrow> R < 2 ^ 53 \<Longrightarrow> s + (row_start R - row_start r) + C \<le> 2 ^ 53 \<Longrightarrow>
     stepToCell_loop (int (s + (row_start R - row_start r) + C)) r 0 s = Some \<lparr>row = R, col = C\<rparr>"
proof (induction "R - r" arbitrary: r s)
  case 0
  then have "r = R" by simp
  then show ?case using stepToCell_loop_in_row[of 0 C R s] 0 by simp
next
  case (Suc d)
  then have lt: "Suc r \<le> R" by simp
  have mono: "row_start (Suc r) \<le> row_start R"
    using lt by (rule row_start_mono)
  have eq: "s + (row_start R - row_start r) + C = (s + Suc r) + (row_start R - row_start (Suc r)) + C"
    using mono by (simp add: row_start_Suc)
  have d: "d = R - Suc r" using Suc.hyps(2) by simp
  have rb: "r < 2 ^ 53" using lt Suc.prems(3) by simp
  have bnd: "s + Suc r + (row_start R - row_start (Suc r)) + C \<le> 2 ^ 53"
    using Suc.prems(4) by (simp only: eq)
  have "stepToCell_loop (int (s + (row_start R - row_start r) + C)) r 0 s
        = stepToCell_loop (int (s + (row_start R - row_start r) + C)) (Suc r) 0 (s + (Suc r - 0))"
    using rb bnd by (intro stepToCell_loop_skip_row) (simp_all add: eq)
  also have "\<dots> = Some \<lparr>row = R, col = C\<rparr>"
    using Suc.hyps(1)[OF d lt Suc.prems(2,3), of "s + Suc r"] bnd by (simp only: eq diff_zero)
  finally show ?case .
qed

lemma row_start_2_53: "row_start 9007199254740992 = 40564819207303345351494129942528"
  by (simp add: row_start_def)

lemma row_bound: "row_start R + C \<le> 2 ^ 53 \<Longrightarrow> R < 2 ^ 53"
proof (rule ccontr)
  assume b: "row_start R + C \<le> 2 ^ 53" and "\<not> R < 2 ^ 53"
  then have "(2 ^ 53 :: nat) \<le> R" by simp
  then have "row_start (2 ^ 53) \<le> row_start R" by (rule row_start_mono)
  then have "row_start (9007199254740992) \<le> row_start R" by simp
  then show False using b by (simp only: row_start_2_53) simp
qed

lemma stepToCell_row_major:
  "c \<le> r \<Longrightarrow> row_start r + c \<le> 2 ^ 53 \<Longrightarrow>
     stepToCell (int (row_start r + c)) = Some \<lparr>row = r, col = c\<rparr>"
  using stepToCell_loop_rows[of 0 r c 0] row_bound[of r c] by (simp add: stepToCell_def)

lemma row_major_exists: "\<exists>r c. c \<le> r \<and> k = row_start r + c"
proof (induction k)
  case 0
  show ?case by (intro exI[of _ 0]) simp
next
  case (Suc k)
  then obtain r c where rc: "c \<le> r" "k = row_start r + c" by blast
  show ?case
  proof (cases "c < r")
    case True
    then show ?thesis using rc by (intro exI[of _ r] exI[of _ "Suc c"]) simp
  next
    case False
    then have "c = r" using rc by simp
    then show ?thesis using rc by (intro exI[of _ "Suc r"] exI[of _ 0]) (simp add: row_start_Suc)
  qed
qed

lemma stepToCell_loop_Some_nonneg:
  assumes "stepToCell_loop step r c s = Some y"
  shows "0 \<le> step"
proof (rule stepToCell_loop.raw_induct[where P = "\<lambda>step r c s y. 0 \<le> step", OF _ assms])
  fix f :: "int \<Rightarrow> nat \<Rightarrow> nat \<Rightarrow> nat \<Rightarrow> cell option" and step r c s y
  assume ih: "\<And>step r c s y. f step r c s = Some y \<Longrightarrow> 0 \<le> step"
  assume eq: "(if c \<le> r then if int s = step then Some \<lparr>row = r, col = c\<rparr>
                 else f step r (js_inc c) (js_inc s)
               else f step (js_inc r) 0 s) = Some y"
  show "0 \<le> step"
  proof (cases "c \<le> r")
    case le: True
    show ?thesis
    proof (cases "int s = step")
      case True
      then show ?thesis by auto
    next
      case False
      with le eq have "f step r (js_inc c) (js_inc s) = Some y" by simp
      then show ?thesis by (rule ih)
    qed
  next
    case False
    with eq have "f step (js_inc r) 0 s = Some y" by simp
    then show ?thesis by (rule ih)
  qed
qed

lemma stepToCell_negative: "step < 0 \<Longrightarrow> stepToCell step = None"
proof (rule ccontr)
  assume neg: "step < 0" and "stepToCell step \<noteq> None"
  then obtain y where "stepToCell_loop step 0 0 0 = Some y"
    by (auto simp: stepToCell_def)
  from stepToCell_loop_Some_nonneg[OF this] neg show False by simp
qed

lemma stepToCell_loop_Some_safe:
  assumes "stepToCell_loop step r c s = Some y"
  shows "s \<le> 2 ^ 53 \<longrightarrow> step \<le> 2 ^ 53"
proof (rule stepToCell_loop.raw_induct[where P = "\<lambda>step r c s y. s \<le> 2 ^ 53 \<longrightarrow> step \<le> 2 ^ 53", OF _ assms])
  fix f :: "int \<Rightarrow> nat \<Rightarrow> nat \<Rightarrow> nat \<Rightarrow> cell option" and step r c s y
  assume ih: "\<And>step r c s y. f step r c s = Some y \<Longrightarrow> s \<le> 2 ^ 53 \<longrightarrow> step \<le> 2 ^ 53"
  assume eq: "(if c \<le> r then if int s = step then Some \<lparr>row = r, col = c\<rparr>
                 else f step r (js_inc c) (js_inc s)
               else f step (js_inc r) 0 s) = Some y"
  show "s \<le> 2 ^ 53 \<longrightarrow> step \<le> 2 ^ 53"
  proof
    assume sb: "s \<le> 2 ^ 53"
    show "step \<le> 2 ^ 53"
    proof (cases "c \<le> r")
      case le: True
      show ?thesis
      proof (cases "int s = step")
        case True
        have "int s \<le> int (2 ^ 53)" using sb by (simp only: of_nat_le_iff)
        then show ?thesis using True by simp
      next
        case False
        with le eq have "f step r (js_inc c) (js_inc s) = Some y" by simp
        then have "js_inc s \<le> 2 ^ 53 \<longrightarrow> step \<le> 2 ^ 53" by (rule ih)
        then show ?thesis using js_inc_le[OF sb] by simp
      qed
    next
      case False
      with eq have "f step (js_inc r) 0 s = Some y" by simp
      then have "s \<le> 2 ^ 53 \<longrightarrow> step \<le> 2 ^ 53" by (rule ih)
      then show ?thesis using sb by simp
    qed
  qed
qed

lemma stepToCell_unsafe: "2 ^ 53 < step \<Longrightarrow> stepToCell step = None"
proof (rule ccontr)
  assume big: "2 ^ 53 < step" and "stepToCell step \<noteq> None"
  then obtain y where "stepToCell_loop step 0 0 0 = Some y"
    by (auto simp: stepToCell_def)
  from stepToCell_loop_Some_safe[OF this] big show False by simp
qed

lemma stepToCell_safe:
  assumes "0 \<le> step" "step \<le> 2 ^ 53"
  shows "\<exists>R C. C \<le> R \<and> step = int (row_start R + C) \<and> stepToCell step = Some \<lparr>row = R, col = C\<rparr>"
proof -
  obtain k where k: "step = int k" using assms(1) by (metis nonneg_int_cases)
  have "int k \<le> int (2 ^ 53)" using assms(2) k by simp
  then have kb: "k \<le> 2 ^ 53" by (simp only: of_nat_le_iff)
  obtain R C where RC: "C \<le> R" "k = row_start R + C"
    using row_major_exists[of k] by blast
  have "stepToCell step = Some \<lparr>row = R, col = C\<rparr>"
    unfolding k RC(2) using RC(1) kb[unfolded RC(2)] by (rule stepToCell_row_major)
  then show ?thesis using RC k by blast
qed

lemma row_start_safe: "m \<le> 134217727 \<Longrightarrow> row_start m \<le> 2 ^ 53"
proof -
  assume "m \<le> 134217727"
  then have "row_start m \<le> row_start 134217727" by (rule row_start_mono)
  then show ?thesis by (simp add: row_start_134217727)
qed

lemma row_start_closed: "0 \<le> n \<Longrightarrow> int (row_start (nat n)) = n * (n + 1) div 2"
proof -
  assume n: "0 \<le> n"
  have "int (nat n * (nat n + 1) div 2) = int (nat n * (nat n + 1)) div 2"
    by (simp only: zdiv_int of_nat_numeral)
  also have "int (nat n * (nat n + 1)) = n * (n + 1)" using n by (simp add: algebra_simps)
  finally show ?thesis by (simp only: row_start_def)
qed

lemma totalSteps_row_start:
  "rows \<le> 134217727 \<Longrightarrow> totalSteps rows = int (row_start (nat rows))"
proof (cases "rows \<le> 0")
  case True
  then show ?thesis by (simp add: totalSteps_nonpos)
next
  case False
  assume "rows \<le> 134217727"
  then have "nat rows \<le> 134217727" by simp
  then have "totalSteps (int (nat rows)) = int (row_start (nat rows))" by (rule totalSteps_exact)
  then show ?thesis using False by simp
qed

text \<open>
  Claim C2 as amended. For every integer \<open>n\<close> with \<open>1 \<le> n \<le> 134217727\<close>,
  \<open>totalSteps n = n (n + 1) / 2\<close>, and \<open>stepToCell\<close> inverts the row-major numbering: the step
  \<open>r (r + 1) / 2 + c\<close> with \<open>c \<le> r < n\<close> is mapped to \<open>(r, c)\<close>; step 0 is \<open>(0, 0)\<close> and step
  \<open>totalSteps n - 1\<close> is \<open>(n - 1, n - 1)\<close>.
\<close>

theorem totalSteps_stepToCell:
  assumes "1 \<le> n" "n \<le> 134217727"
  shows "totalSteps n = n * (n + 1) div 2 \<and>
     (\<forall>r c. c \<le> r \<and> int r < n \<longrightarrow>
        stepToCell (int (r * (r + 1) div 2 + c)) = Some \<lparr>row = r, col = c\<rparr>) \<and>
     stepToCell 0 = Some \<lparr>row = 0, col = 0\<rparr> \<and>
     stepToCell (totalSteps n - 1) = Some \<lparr>row = nat (n - 1), col = nat (n - 1)\<rparr>"
proof (intro conjI allI impI)
  show "totalSteps n = n * (n + 1) div 2"
    using assms by (simp add: totalSteps_row_start row_start_closed)
next
  fix r c assume h: "c \<le> r \<and> int r < n"
  then have "Suc r \<le> 134217727" using assms(2) by simp
  then have "row_start (Suc r) \<le> 2 ^ 53" by (rule row_start_safe)
  then have "row_start r + c \<le> 2 ^ 53" using h by (simp add: row_start_Suc)
  then have "stepToCell (int (row_start r + c)) = Some \<lparr>row = r, col = c\<rparr>"
    using h by (intro stepToCell_row_major) simp_all
  then show "stepToCell (int (r * (r + 1) div 2 + c)) = Some \<lparr>row = r, col = c\<rparr>"
    by (simp add: row_start_def)
next
  show "stepToCell 0 = Some \<lparr>row = 0, col = 0\<rparr>"
    using stepToCell_row_major[of 0 0] by simp
next
  obtain m where m: "nat n = Suc m" using assms by (cases "nat n") auto
  have m': "nat (n - 1) = m" using m by simp
  have "Suc m \<le> 134217727" using assms(2) m by simp
  then have "row_start (Suc m) \<le> 2 ^ 53" by (rule row_start_safe)
  then have b: "row_start m + m \<le> 2 ^ 53" by (simp add: row_start_Suc)
  have "totalSteps n - 1 = int (row_start m + m)"
    using assms(2) by (simp add: totalSteps_row_start m row_start_Suc)
  then show "stepToCell (totalSteps n - 1) = Some \<lparr>row = nat (n - 1), col = nat (n - 1)\<rparr>"
    using stepToCell_row_major[of m m] b by (simp add: m')
qed

theorem totalSteps_stepToCell_witness:
  "(1::int) \<le> 4 \<and> (4::int) \<le> 134217727 \<and> totalSteps 4 = 10 \<and>
   stepToCell 4 = Some \<lparr>row = 2, col = 1\<rparr> \<and>
   stepToCell 0 = Some \<lparr>row = 0, col = 0\<rparr> \<and>
   stepToCell 9 = Some \<lparr>row = 3, col = 3\<rparr>"
proof -
  have h: "(1::int) \<le> 4" by simp
  have h2: "(4::int) \<le> 134217727" by simp
  note th = totalSteps_stepToCell[OF h h2]
  have "totalSteps 4 = 4 * (4 + 1) div 2" using th by blast
  then have tot: "totalSteps 4 = 10" by simp
  have "(1::nat) \<le> 2 \<and> int 2 < 4" by simp
  then have "stepToCell (int (2 * (2 + 1) div 2 + 1)) = Some \<lparr>row = 2, col = 1\<rparr>"
    using th by blast
  then have c21: "stepToCell 4 = Some \<lparr>row = 2, col = 1\<rparr>" by simp
  have c00: "stepToCell 0 = Some \<lparr>row = 0, col = 0\<rparr>" using th by blast
  have "stepToCell (totalSteps 4 - 1) = Some \<lparr>row = nat (4 - 1), col = nat (4 - 1)\<rparr>"
    using th by blast
  then have c33: "stepToCell 9 = Some \<lparr>row = 3, col = 3\<rparr>" by (simp add: tot)
  show ?thesis using h tot c21 c00 c33 by simp
qed

text \<open>
  Claim C2 says this for every \<open>n \<ge> 1\<close>. Numbers are doubles: a counter that has reached
  \<open>2^53\<close> is not changed by \<^verbatim>\<open>s++\<close>, and a sum above \<open>2^53\<close> is rounded. For \<open>n = 134217728\<close> the
  cell \<open>(134217727, 67108866)\<close> has the step \<open>2^53 + 2\<close>, which the counter of \<open>stepToCell\<close>
  never reaches; and \<open>totalSteps 134217729\<close> is \<open>9007199456067584\<close>, one less than
  \<open>n (n + 1) / 2\<close>.
\<close>

theorem totalSteps_stepToCell_counterexample:
  "(1::int) \<le> 134217728 \<and> (67108866::nat) \<le> 134217727 \<and> int 134217727 < 134217728 \<and>
   int (134217727 * (134217727 + 1) div 2 + 67108866) = 9007199254740994 \<and>
   stepToCell 9007199254740994 = None \<and>
   totalSteps 134217729 = 9007199456067584 \<and>
   (134217729::int) * (134217729 + 1) div 2 = 9007199456067585"
proof -
  have "stepToCell 9007199254740994 = None" by (rule stepToCell_unsafe) simp
  then show ?thesis by (simp add: totalSteps_134217729)
qed

text \<open>
  Claim C10 as amended. \<open>stepToCell\<close> returns a cell for every integer \<open>step\<close> with
  \<open>0 \<le> step \<le> 2^53\<close>: the loop is left when the running counter equals \<open>step\<close>, so the cell
  \<open>(r, c)\<close> it returns is the one with \<open>r (r + 1) / 2 + c = step\<close> and \<open>c \<le> r\<close>. For \<open>step < 0\<close>
  and for \<open>step > 2^53\<close> the counter never equals \<open>step\<close> and the function does not return.
\<close>

theorem stepToCell_terminates:
  "(0 \<le> step \<and> step \<le> 2 ^ 53 \<longrightarrow>
      (\<exists>cell. stepToCell step = Some cell \<and> col cell \<le> row cell \<and>
              step = int (row cell * (row cell + 1) div 2 + col cell))) \<and>
   (step < 0 \<longrightarrow> stepToCell step = None) \<and>
   (2 ^ 53 < step \<longrightarrow> stepToCell step = None)"
proof (intro conjI impI)
  assume "0 \<le> step \<and> step \<le> 2 ^ 53"
  then obtain R C where RC: "C \<le> R" "step = int (row_start R + C)"
      "stepToCell step = Some \<lparr>row = R, col = C\<rparr>"
    using stepToCell_safe[of step] by blast
  then show "\<exists>cell. stepToCell step = Some cell \<and> col cell \<le> row cell \<and>
              step = int (row cell * (row cell + 1) div 2 + col cell)"
    by (intro exI[of _ "\<lparr>row = R, col = C\<rparr>"]) (simp add: row_start_def)
next
  assume "step < 0"
  then show "stepToCell step = None" by (rule stepToCell_negative)
next
  assume "2 ^ 53 < step"
  then show "stepToCell step = None" by (rule stepToCell_unsafe)
qed

theorem stepToCell_terminates_witness:
  "(0::int) \<le> 7 \<and> (7::int) \<le> 2 ^ 53 \<and> stepToCell 7 = Some \<lparr>row = 3, col = 1\<rparr> \<and>
   (- 1 :: int) < 0 \<and> stepToCell (- 1) = None \<and>
   (2 ^ 53 :: int) < 9007199254740996 \<and> stepToCell 9007199254740996 = None"
proof -
  obtain cell where c: "stepToCell 7 = Some cell"
    using stepToCell_terminates[of 7] by auto
  have v: "stepToCell 7 = Some \<lparr>row = 3, col = 1\<rparr>" by code_simp
  have n: "stepToCell (- 1) = None"
    using stepToCell_terminates[of "- 1"] by simp
  have b: "stepToCell 9007199254740996 = None"
    using stepToCell_terminates[of 9007199254740996] by simp
  show ?thesis using c v n b by simp
qed

text \<open>
  Claim C10 says that \<open>stepToCell\<close> returns for every \<open>step \<ge> 0\<close>. The counter of the loop is
  a double, and \<^verbatim>\<open>s++\<close> leaves \<open>2^53\<close> unchanged, so that the counter never equals the step
  \<open>2^53 + 2\<close>: for that step the function does not return.
\<close>

theorem stepToCell_terminates_counterexample:
  "(0::int) \<le> 9007199254740994 \<and> stepToCell 9007199254740994 = None"
proof -
  have "stepToCell 9007199254740994 = None" by (rule stepToCell_unsafe) simp
  then show ?thesis by simp
qed

text \<open>
  Claim C7 says that \<open>stepToCell\<close> reports an out-of-range error for every step outside
  \<open>[0, totalSteps n - 1]\<close> and never returns a coordinate for it. The function takes no row
  count and has no error path: for \<open>n = 4\<close> (10 steps) the step 10 is out of range, and
  \<open>stepToCell 10\<close> returns the cell \<open>(4, 0)\<close>.
\<close>

theorem stepToCell_out_of_range_counterexample:
  "totalSteps 4 = 10 \<and> \<not> (10 \<le> totalSteps 4 - 1) \<and> stepToCell 10 = Some \<lparr>row = 4, col = 0\<rparr>"
  by code_simp

text \<open>
  Claim C7 as amended. \<open>stepToCell\<close> has no range check and reports no error. For a row count
  \<open>n\<close> with \<open>1 \<le> n \<le> 134217727\<close> and a step with \<open>totalSteps n \<le> step \<le> 2^53\<close> it returns the
  cell \<open>(r, c)\<close> of the row-major numbering that lies below the triangle of \<open>n\<close> rows: \<open>r \<ge> n\<close>,
  \<open>c \<le> r\<close> and \<open>r (r + 1) / 2 + c = step\<close>. For a negative step and for a step above \<open>2^53\<close> it
  does not return at all, so it returns no coordinate.
\<close>

theorem stepToCell_out_of_range:
  "(1 \<le> n \<and> n \<le> 134217727 \<and> totalSteps n \<le> step \<and> step \<le> 2 ^ 53 \<longrightarrow>
      (\<exists>cell. stepToCell step = Some cell \<and> n \<le> int (row cell) \<and> col cell \<le> row cell \<and>
              step = int (row cell * (row cell + 1) div 2 + col cell))) \<and>
   (step < 0 \<longrightarrow> stepToCell step = None) \<and>
   (2 ^ 53 < step \<longrightarrow> stepToCell step = None)"
proof (intro conjI impI)
  assume h: "1 \<le> n \<and> n \<le> 134217727 \<and> totalSteps n \<le> step \<and> step \<le> 2 ^ 53"
  then have tot: "totalSteps n = int (row_start (nat n))" by (simp add: totalSteps_row_start)
  have "0 \<le> step" using h tot by simp
  then obtain R C where RC: "C \<le> R" "step = int (row_start R + C)"
      "stepToCell step = Some \<lparr>row = R, col = C\<rparr>"
    using stepToCell_safe[of step] h by blast
  have "nat n \<le> R"
  proof (rule ccontr)
    assume "\<not> nat n \<le> R"
    then have "Suc R \<le> nat n" by simp
    then have "row_start (Suc R) \<le> row_start (nat n)" by (rule row_start_mono)
    then have "row_start R + C < row_start (nat n)" using RC(1) by (simp add: row_start_Suc)
    then show False using h RC(2) tot by simp
  qed
  then have "n \<le> int R" by simp
  then show "\<exists>cell. stepToCell step = Some cell \<and> n \<le> int (row cell) \<and> col cell \<le> row cell \<and>
              step = int (row cell * (row cell + 1) div 2 + col cell)"
    using RC by (intro exI[of _ "\<lparr>row = R, col = C\<rparr>"]) (simp add: row_start_def)
next
  assume "step < 0"
  then show "stepToCell step = None" by (rule stepToCell_negative)
next
  assume "2 ^ 53 < step"
  then show "stepToCell step = None" by (rule stepToCell_unsafe)
qed

theorem stepToCell_out_of_range_witness:
  "(1::int) \<le> 4 \<and> (4::int) \<le> 134217727 \<and> totalSteps 4 \<le> 12 \<and> (12::int) \<le> 2 ^ 53 \<and>
   (\<exists>cell. stepToCell 12 = Some cell \<and> 4 \<le> int (row cell) \<and> col cell \<le> row cell) \<and>
   (- 3 :: int) < 0 \<and> stepToCell (- 3) = None \<and>
   (2 ^ 53 :: int) < 9007199254740998 \<and> stepToCell 9007199254740998 = None"
proof -
  have t: "totalSteps 4 = 10" by code_simp
  have h: "(1::int) \<le> 4 \<and> (4::int) \<le> 134217727 \<and> totalSteps 4 \<le> 12 \<and> (12::int) \<le> 2 ^ 53"
    by (simp add: t)
  have a: "\<exists>cell. stepToCell 12 = Some cell \<and> 4 \<le> int (row cell) \<and> col cell \<le> row cell"
    using stepToCell_out_of_range[of 4 12] h by blast
  have n: "stepToCell (- 3) = None"
    using stepToCell_out_of_range[of 4 "- 3"] by simp
  have b: "stepToCell 9007199254740998 = None"
    using stepToCell_out_of_range[of 4 9007199254740998] by simp
  show ?thesis using h a n b by simp
qed


section \<open>The controller\<close>

lemma step_inv_mount: "step_inv (mount s)"
  using totalSteps_nonneg[of "pascalRows s"] by (simp add: step_inv_def mount_def)

lemma step_inv_initial: "step_inv initial_system"
  unfolding initial_system_def by (rule step_inv_mount)

lemma step_inv_transition: "step_inv s \<Longrightarrow> step_inv (fst (transition s e))"
proof (cases e)
  case Tick
  assume "step_inv s"
  then show ?thesis
    by (simp add: Tick step_inv_def interval_tick_def handlePascalComplete_def)
next
  case StepButton
  assume "step_inv s"
  then show ?thesis
    by (simp add: StepButton step_inv_def manual_step_def)
qed (simp_all add: step_inv_mount, simp add: step_inv_def)

lemma run_Cons_fst: "fst (run s (e # es)) = fst (run (fst (transition s e)) es)"
  by (simp split: prod.splits)

lemma step_inv_run: "step_inv s \<Longrightarrow> step_inv (fst (run s evs))"
proof (induction evs arbitrary: s)
  case Nil
  then show ?case by simp
next
  case (Cons e es)
  have "step_inv (fst (transition s e))" using Cons.prems by (rule step_inv_transition)
  then have "step_inv (fst (run (fst (transition s e)) es))" by (rule Cons.IH)
  then show ?case by (simp only: run_Cons_fst)
qed

lemma step_inv_reachable: "step_inv (fst (run initial_system evs))"
  using step_inv_initial by (rule step_inv_run)

text \<open>
  Claim C4. In every state \<open>s\<close> that a sequence of events reaches from the initial state, the
  step index is in \<open>[-1, totalSteps rows - 1]\<close>; it starts at \<open>-1\<close>; an advance (the step
  button, or a tick while playing) adds exactly 1 while the index is below
  \<open>totalSteps rows - 1\<close> and changes nothing at \<open>totalSteps rows - 1\<close>; a reset or a change of
  the row count sets it to \<open>-1\<close>; and it decreases only to \<open>-1\<close> and only by a reset or a
  change of the row count.
\<close>

theorem step_index_invariant:
  "let s = fst (run initial_system evs); s' = fst (transition s e) in
     currentStep initial_system = - 1 \<and>
     - 1 \<le> currentStep s \<and> currentStep s \<le> totalSteps (pascalRows s) - 1 \<and>
     (e = StepButton \<or> (e = Tick \<and> pascalPlaying s) \<longrightarrow>
        currentStep s' = (if currentStep s < totalSteps (pascalRows s) - 1 then currentStep s + 1
                          else currentStep s)) \<and>
     (e = ResetButton \<or> e = HeaderReset \<or> (\<exists>n. e = RowsSlider n) \<longrightarrow> currentStep s' = - 1) \<and>
     (e = PlayPauseButton \<or> (e = Tick \<and> \<not> pascalPlaying s) \<longrightarrow> currentStep s' = currentStep s) \<and>
     (currentStep s' < currentStep s \<longrightarrow>
        currentStep s' = - 1 \<and> (e = ResetButton \<or> e = HeaderReset \<or> (\<exists>n. e = RowsSlider n)))"
proof -
  define s where "s = fst (run initial_system evs)"
  have inv: "step_inv s" unfolding s_def by (rule step_inv_reachable)
  have init: "currentStep initial_system = - 1"
    by (simp add: initial_system_def mount_def)
  have adv: "currentStep (fst (transition s e)) =
      (if currentStep s < totalSteps (pascalRows s) - 1 then currentStep s + 1 else currentStep s)"
    if "e = StepButton \<or> (e = Tick \<and> pascalPlaying s)"
    using that inv
    by (auto simp: step_inv_def manual_step_def interval_tick_def handlePascalComplete_def)
  have rst: "currentStep (fst (transition s e)) = - 1"
    if "e = ResetButton \<or> e = HeaderReset \<or> (\<exists>n. e = RowsSlider n)"
    using that by (auto simp: mount_def)
  have same: "currentStep (fst (transition s e)) = currentStep s"
    if "e = PlayPauseButton \<or> (e = Tick \<and> \<not> pascalPlaying s)"
    using that by auto
  have dec: "currentStep (fst (transition s e)) = - 1 \<and>
        (e = ResetButton \<or> e = HeaderReset \<or> (\<exists>n. e = RowsSlider n))"
    if "currentStep (fst (transition s e)) < currentStep s"
  proof (cases e)
    case Tick
    then show ?thesis using that adv same by (cases "pascalPlaying s") (auto split: if_splits)
  next
    case StepButton
    then show ?thesis using that adv by (auto split: if_splits)
  next
    case PlayPauseButton
    then show ?thesis using that same by auto
  qed (use rst in auto)
  show ?thesis
    using inv init adv rst same dec
    unfolding Let_def s_def[symmetric] step_inv_def by blast
qed

theorem step_index_invariant_witness:
  "currentStep (fst (run initial_system [RowsSlider 3, StepButton, StepButton])) = 1 \<and>
   totalSteps 3 - 1 = 5 \<and>
   currentStep (fst (transition (fst (run initial_system [RowsSlider 3, StepButton, StepButton])) StepButton)) = 2 \<and>
   currentStep (fst (run initial_system (RowsSlider 3 # replicate 9 StepButton))) = 5 \<and>
   currentStep (fst (transition (fst (run initial_system (RowsSlider 3 # replicate 9 StepButton))) StepButton)) = 5 \<and>
   currentStep (fst (transition (fst (run initial_system (RowsSlider 3 # replicate 9 StepButton))) ResetButton)) = - 1"
proof -
  let ?a = "[RowsSlider 3, StepButton, StepButton]"
  let ?b = "RowsSlider 3 # replicate 9 StepButton"
  have tot: "totalSteps 3 = 6" by code_simp
  have a: "currentStep (fst (run initial_system ?a)) = 1" "pascalRows (fst (run initial_system ?a)) = 3"
    by code_simp+
  have b: "currentStep (fst (run initial_system ?b)) = 5" "pascalRows (fst (run initial_system ?b)) = 3"
    by code_simp+
  have a': "currentStep (fst (transition (fst (run initial_system ?a)) StepButton)) = 2"
    using step_index_invariant[of ?a StepButton] unfolding Let_def a tot by simp
  have b': "currentStep (fst (transition (fst (run initial_system ?b)) StepButton)) = 5"
    using step_index_invariant[of ?b StepButton] unfolding Let_def b tot by simp
  have b'': "currentStep (fst (transition (fst (run initial_system ?b)) ResetButton)) = - 1"
    using step_index_invariant[of ?b ResetButton] unfolding Let_def by simp
  show ?thesis using tot a b a' b' b'' by simp
qed

text \<open>
  Claim C3 says that, from step index \<open>-1\<close> with playback on and 4 rows (10 steps), ten ticks
  emit one completion signal, on the tenth tick, and playback stops. In the source the
  callback of the interval calls \<open>onComplete\<close> only when it finds the step index already at
  \<open>total - 1\<close>: the tenth tick moves the index from 8 to 9 and emits nothing, and playback is
  still on after it.
\<close>

theorem completion_on_tenth_tick_counterexample:
  "totalSteps 4 = 10 \<and>
   fst (run initial_system [RowsSlider 4, PlayPauseButton]) =
     \<lparr>pascalRows = 4, pascalPlaying = True, pascalStepTrigger = 0, pascalResetKey = 1,
      currentStep = - 1, lastStepTrigger = 0\<rparr> \<and>
   run \<lparr>pascalRows = 4, pascalPlaying = True, pascalStepTrigger = 0, pascalResetKey = 1,
        currentStep = - 1, lastStepTrigger = 0\<rparr> (replicate 10 Tick) =
     (\<lparr>pascalRows = 4, pascalPlaying = True, pascalStepTrigger = 0, pascalResetKey = 1,
       currentStep = 9, lastStepTrigger = 0\<rparr>, replicate 10 False)"
  by code_simp

text \<open>
  Claim C3 as amended. From the same state, eleven ticks emit exactly one completion signal,
  on the eleventh tick (the first ten reveal the steps 0 to 9), and playback is off
  immediately after that tick; later ticks, should any fire, change nothing and emit nothing.
\<close>

theorem completion_on_eleventh_tick:
  "run \<lparr>pascalRows = 4, pascalPlaying = True, pascalStepTrigger = 0, pascalResetKey = 1,
        currentStep = - 1, lastStepTrigger = 0\<rparr> (replicate 11 Tick) =
     (\<lparr>pascalRows = 4, pascalPlaying = False, pascalStepTrigger = 0, pascalResetKey = 1,
       currentStep = 9, lastStepTrigger = 0\<rparr>, replicate 10 False @ [True]) \<and>
   run \<lparr>pascalRows = 4, pascalPlaying = False, pascalStepTrigger = 0, pascalResetKey = 1,
       currentStep = 9, lastStepTrigger = 0\<rparr> (replicate 5 Tick) =
     (\<lparr>pascalRows = 4, pascalPlaying = False, pascalStepTrigger = 0, pascalResetKey = 1,
       currentStep = 9, lastStepTrigger = 0\<rparr>, replicate 5 False)"
  by code_simp

lemma transition_completed:
  "snd (transition s e) \<Longrightarrow> e = Tick \<and> pascalPlaying s \<and> totalSteps (pascalRows s) - 1 \<le> currentStep s"
  by (cases e) (auto simp: interval_tick_def split: if_splits)

lemma run_Cons_snd: "snd (run s (e # es)) = snd (transition s e) # snd (run (fst (transition s e)) es)"
  by (simp split: prod.splits)

lemma run_manual_no_completion:
  "set evs \<subseteq> {StepButton} \<Longrightarrow> True \<notin> set (snd (run s evs))"
proof (induction evs arbitrary: s)
  case Nil
  then show ?case by simp
next
  case (Cons e es)
  then have e: "e = StepButton" and es: "set es \<subseteq> {StepButton}" by auto
  have "True \<notin> set (snd (run (fst (transition s e)) es))" using es by (rule Cons.IH)
  moreover have "\<not> snd (transition s e)" by (simp add: e)
  ultimately show ?case by (simp only: run_Cons_snd) simp
qed

text \<open>
  Claim C5. Manual stepping never emits the completion signal: from any state, a sequence of
  presses of the step button, however long, emits none, also when it reaches the last step
  and goes on. A transition emits the signal only if it is a tick taken while playback is
  on (and the step index is at the last step).
\<close>

theorem manual_step_never_completes:
  "(snd (transition s e) \<longrightarrow>
      e = Tick \<and> pascalPlaying s \<and> totalSteps (pascalRows s) - 1 \<le> currentStep s) \<and>
   (set evs \<subseteq> {StepButton} \<longrightarrow> True \<notin> set (snd (run s evs)))"
  using transition_completed[of s e] run_manual_no_completion[of evs s] by blast

theorem manual_step_never_completes_witness:
  "set (replicate 8 StepButton) \<subseteq> {StepButton} \<and>
   totalSteps 3 - 1 = 5 \<and>
   currentStep (fst (run (fst (run initial_system [RowsSlider 3])) (replicate 8 StepButton))) = 5 \<and>
   True \<notin> set (snd (run (fst (run initial_system [RowsSlider 3])) (replicate 8 StepButton))) \<and>
   snd (transition (fst (run initial_system (RowsSlider 3 # PlayPauseButton # replicate 6 Tick))) Tick) \<and>
   pascalPlaying (fst (run initial_system (RowsSlider 3 # PlayPauseButton # replicate 6 Tick)))"
proof -
  let ?s = "fst (run initial_system [RowsSlider 3])"
  let ?p = "fst (run initial_system (RowsSlider 3 # PlayPauseButton # replicate 6 Tick))"
  have sub: "set (replicate 8 StepButton) \<subseteq> {StepButton}" by simp
  have tot: "totalSteps 3 - 1 = 5" by code_simp
  have cs: "currentStep (fst (run ?s (replicate 8 StepButton))) = 5" by code_simp
  have none: "True \<notin> set (snd (run ?s (replicate 8 StepButton)))"
    using manual_step_never_completes[of ?s StepButton "replicate 8 StepButton"] sub by blast
  have fires: "snd (transition ?p Tick)" by code_simp
  have playing: "pascalPlaying ?p"
    using manual_step_never_completes[of ?p Tick "[]"] fires by blast
  show ?thesis using sub tot cs none fires playing by simp
qed


section \<open>The frame\<close>


subsection \<open>Loops\<close>

lemma for_each_Inr:
  "(\<And>x. x \<in> set xs \<Longrightarrow> body x = Inr (f x)) \<Longrightarrow> for_each body xs = Inr (concat (map f xs))"
  by (induction xs) simp_all

lemma texts_append [simp]: "texts (xs @ ys) = texts xs @ texts ys"
  by (simp add: texts_def)

lemma texts_Nil [simp]: "texts [] = []"
  by (simp add: texts_def)

lemma texts_concat: "texts (concat xss) = concat (map texts xss)"
  by (induction xss) simp_all

lemma for_each_no_text:
  "(\<And>x. x \<in> set xs \<Longrightarrow> \<exists>ys. body x = Inr ys \<and> texts ys = []) \<Longrightarrow>
     \<exists>zs. for_each body xs = Inr zs \<and> texts zs = []"
proof (induction xs)
  case Nil
  then show ?case by simp
next
  case (Cons x xs)
  obtain ys where ys: "body x = Inr ys" "texts ys = []" using Cons.prems[of x] by auto
  obtain zs where zs: "for_each body xs = Inr zs" "texts zs = []"
    using Cons.IH Cons.prems by auto
  show ?case using ys zs by simp
qed

lemma find_unique:
  "x \<in> set xs \<Longrightarrow> P x \<Longrightarrow> (\<And>y. y \<in> set xs \<Longrightarrow> P y \<Longrightarrow> y = x) \<Longrightarrow> find P xs = Some x"
proof (induction xs)
  case Nil
  then show ?case by simp
next
  case (Cons a xs)
  show ?case
  proof (cases "P a")
    case True
    then have "a = x" using Cons.prems(3)[of a] by simp
    then show ?thesis using True by simp
  next
    case False
    then have "x \<in> set xs" using Cons.prems(1,2) by auto
    then have "find P xs = Some x" using Cons.prems(2,3) by (intro Cons.IH) auto
    then show ?thesis using False by simp
  qed
qed

subsection \<open>Positions\<close>

lemma row_positions_pascal:
  "row_positions w sz r (pascal_row r) = map (cell_position w sz r) [0..<Suc r]"
  unfolding row_positions_def Let_def length_pascal_row
  by (rule map_cong[OF refl]) (auto simp: cell_position_def pascal_entry_def)

lemma positions_loop_pascal:
  "positions_loop w sz rows (pascal_rows (nat rows)) = Inr (pascal_positions w sz (nat rows))"
  unfolding positions_loop_def pascal_positions_def
  by (rule for_each_Inr) (simp add: row_at_pascal_rows row_positions_pascal)

lemma set_pascal_positions:
  "set (pascal_positions w sz n) = {cell_position w sz r c | r c. r < n \<and> c \<le> r}"
  unfolding pascal_positions_def by (auto simp del: upt_Suc simp: less_Suc_eq_le) blast

lemma find_position_pascal:
  assumes "r < n" "c \<le> r"
  shows "find_position (pascal_positions w sz n) r c = Some (cell_position w sz r c)"
  unfolding find_position_def
proof (rule find_unique)
  show "cell_position w sz r c \<in> set (pascal_positions w sz n)"
    using assms by (auto simp: set_pascal_positions)
  show "pos_row (cell_position w sz r c) = r \<and> pos_col (cell_position w sz r c) = c"
    by (simp add: cell_position_def)
next
  fix y assume "y \<in> set (pascal_positions w sz n)" "pos_row y = r \<and> pos_col y = c"
  then show "y = cell_position w sz r c"
    by (auto simp: set_pascal_positions cell_position_def)
qed


subsection \<open>Cells\<close>

lemma cells_row_upt:
  assumes "\<And>c. a \<le> c \<Longrightarrow> c < m \<Longrightarrow> cellf c (s + (c - a)) = Inr (g c)"
  shows "cells_row cellf [a..<m] s = Inr (concat (map g [a..<m]), s + (m - a))"
  using assms
proof (induction "m - a" arbitrary: a s)
  case 0
  then show ?case by simp
next
  case (Suc d)
  then have lt: "a < m" by simp
  have hd: "cellf a s = Inr (g a)" using Suc.prems[of a] lt by simp
  have d: "d = m - Suc a" using Suc.hyps(2) by simp
  have tl: "cells_row cellf [Suc a..<m] (s + 1) = Inr (concat (map g [Suc a..<m]), s + 1 + (m - Suc a))"
  proof (rule Suc.hyps(1)[OF d])
    fix c assume c: "Suc a \<le> c" "c < m"
    then have "s + 1 + (c - Suc a) = s + (c - a)" by simp
    then show "cellf c (s + 1 + (c - Suc a)) = Inr (g c)"
      using Suc.prems[of c] c by simp
  qed
  have "s + 1 + (m - Suc a) = s + (m - a)" using lt by simp
  then show ?case
    using hd tl by (simp add: upt_conv_Cons[OF lt])
qed

lemma draw_cell_pascal:
  assumes "r < n" "c \<le> r"
  shows "draw_cell isDark sz (pascal_rows n) (pascal_positions w sz n) k activeAddition
           r (pascal_row r) c (row_start r + c)
         = Inr (cell_ops isDark w sz k activeAddition r c)"
proof -
  have pos: "find_position (pascal_positions w sz n) r c = Some (cell_position w sz r c)"
    using assms by (rule find_position_pascal)
  have v: "elem_at (pascal_row r) c = pascal_entry r c"
    by (simp only: pascal_entry_def)
  have prev: "row_at (pascal_rows n) (r - 1) = Some (pascal_row (r - 1))"
    using assms(1) by (intro row_at_pascal_rows) simp
  have f: "formula_ops sz (cell_position w sz r c) (pascal_rows n) r c (pascal_entry r c)
     = Inr [FillStyle additionHighlight,
              Font 800 (sz * 0.38),
              TextAlign ''center'',
              TextBaseline ''top'',
              FillText (js_string (pascal_entry (r - 1) (c - 1)) @ '' + ''
                          @ js_string (pascal_entry (r - 1) c) @ '' = ''
                          @ js_string (pascal_entry r c))
                       (pos_x (cell_position w sz r c)) (pos_y (cell_position w sz r c) + sz / 2 + 8)]"
    unfolding formula_ops_def prev by (simp add: pascal_entry_def)
  show ?thesis
    unfolding draw_cell_def pos v Let_def cell_ops_def
    using f by (auto simp: not_le)
qed

lemma cells_loop_pascal:
  assumes "a \<le> n"
  shows "cells_loop (draw_cell isDark sz (pascal_rows n) (pascal_positions w sz n) k activeAddition)
           (pascal_rows n) [a..<n] (row_start a)
         = Inr (concat (map (\<lambda>r. concat (map (cell_ops isDark w sz k activeAddition r) [0..<Suc r])) [a..<n]),
               row_start n)"
  using assms
proof (induction "n - a" arbitrary: a)
  case 0
  then show ?case by simp
next
  case (Suc d)
  then have lt: "a < n" by simp
  have d: "d = n - Suc a" using Suc.hyps(2) by simp
  have rw: "row_at (pascal_rows n) a = Some (pascal_row a)" using lt by (rule row_at_pascal_rows)
  have row: "cells_row (draw_cell isDark sz (pascal_rows n) (pascal_positions w sz n) k activeAddition a (pascal_row a))
               [0..<Suc a] (row_start a)
             = Inr (concat (map (cell_ops isDark w sz k activeAddition a) [0..<Suc a]), row_start a + (Suc a - 0))"
    by (rule cells_row_upt) (use lt in \<open>simp add: draw_cell_pascal\<close>)
  have nxt: "row_start a + (Suc a - 0) = row_start (Suc a)" by (simp add: row_start_Suc)
  have tl: "cells_loop (draw_cell isDark sz (pascal_rows n) (pascal_positions w sz n) k activeAddition)
           (pascal_rows n) [Suc a..<n] (row_start (Suc a))
         = Inr (concat (map (\<lambda>r. concat (map (cell_ops isDark w sz k activeAddition r) [0..<Suc r])) [Suc a..<n]),
               row_start n)"
    using lt by (intro Suc.hyps(1)[OF d]) simp
  show ?case
    unfolding upt_conv_Cons[OF lt] cells_loop.simps rw option.case length_pascal_row row nxt
    using tl by (simp del: upt_Suc)
qed


subsection \<open>Arrows\<close>

lemma texts_arrow [simp]: "texts [DrawArrow a b c d e f g] = []"
  by (simp add: texts_def)

lemma texts_arrows_cell:
  "texts (arrows_cell isDark sz positions k activeAddition r c rowlen cellStepIdx) = []"
  by (cases "find_position positions r c"; cases "find_position positions (r - 1) (c - 1)";
      cases "find_position positions (r - 1) c") (simp_all add: arrows_cell_def)

lemma rows_length_sum_Inr:
  "(\<And>rr. rr \<in> set rrs \<Longrightarrow> rr < n) \<Longrightarrow> \<exists>m. rows_length_sum (pascal_rows n) rrs = Inr m"
proof (induction rrs)
  case Nil
  then show ?case by simp
next
  case (Cons rr rrs)
  have rw: "row_at (pascal_rows n) rr = Some (pascal_row rr)"
    using Cons.prems[of rr] by (intro row_at_pascal_rows) simp
  obtain m where "rows_length_sum (pascal_rows n) rrs = Inr m"
    using Cons.IH Cons.prems by auto
  then show ?case by (simp add: rw)
qed

lemma arrows_loop_pascal:
  "\<exists>arrows. arrows_loop isDark sz rows (pascal_rows (nat rows)) positions k activeAddition = Inr arrows
      \<and> texts arrows = []"
  unfolding arrows_loop_def
proof (rule for_each_no_text)
  fix r assume "r \<in> set [1..<nat rows]"
  then have r: "r < nat rows" by simp
  have rw: "row_at (pascal_rows (nat rows)) r = Some (pascal_row r)"
    using r by (rule row_at_pascal_rows)
  obtain m where m: "rows_length_sum (pascal_rows (nat rows)) [0..<r] = Inr m"
    using rows_length_sum_Inr[of "[0..<r]" "nat rows"] r by auto
  have "\<exists>ys. for_each
           (\<lambda>c. case rows_length_sum (pascal_rows (nat rows)) [0..<r] of
                   Inl e \<Rightarrow> Inl e
                 | Inr skipped \<Rightarrow>
                     Inr (arrows_cell isDark sz positions k activeAddition r c
                            (length (pascal_row r)) (skipped + c)))
           [0..<length (pascal_row r)] = Inr ys \<and> texts ys = []"
    by (rule for_each_no_text) (simp add: m texts_arrows_cell)
  then show "\<exists>ys. (case row_at (pascal_rows (nat rows)) r of
               None \<Rightarrow> Inl TypeError
             | Some trow \<Rightarrow>
                 for_each
                   (\<lambda>c. case rows_length_sum (pascal_rows (nat rows)) [0..<r] of
                           Inl e \<Rightarrow> Inl e
                         | Inr skipped \<Rightarrow>
                             Inr (arrows_cell isDark sz positions k activeAddition r c
                                    (length trow) (skipped + c)))
                   [0..<length trow]) = Inr ys \<and> texts ys = []"
    by (simp only: rw option.case)
qed

subsection \<open>The frame\<close>

lemma concat_frame_cells:
  "concat (frame_cells isDark w sz k activeAddition n)
   = concat (map (\<lambda>r. concat (map (cell_ops isDark w sz k activeAddition r) [0..<Suc r])) [0..<n])"
  unfolding frame_cells_def by (induction n) (simp_all del: upt_Suc add: upt_Suc_append)

lemma component_draw_frame:
  assumes "1 \<le> rows" "has_canvas d" "has_parent d" "has_context d"
  shows "\<exists>arrows. texts arrows = [] \<and>
     component_draw d isDark rows k activeAddition
       = Inr (header_ops d isDark @ arrows
              @ concat (frame_cells isDark (clientWidth d)
                          (cellSize (clientWidth d) (clientHeight d) rows) k activeAddition (nat rows))
              @ title_ops isDark (clientWidth d) k (totalSteps rows))"
proof -
  let ?w = "clientWidth d" and ?sz = "cellSize (clientWidth d) (clientHeight d) rows"
  have t: "buildPascal rows = Inr (pascal_rows (nat rows))"
    using assms(1) by (rule buildPascal_rows)
  have p: "positions_loop ?w ?sz rows (pascal_rows (nat rows)) = Inr (pascal_positions ?w ?sz (nat rows))"
    by (rule positions_loop_pascal)
  obtain arrows where a: "arrows_loop isDark ?sz rows (pascal_rows (nat rows))
       (pascal_positions ?w ?sz (nat rows)) k activeAddition = Inr arrows" "texts arrows = []"
    using arrows_loop_pascal by blast
  have c: "cells_loop (draw_cell isDark ?sz (pascal_rows (nat rows)) (pascal_positions ?w ?sz (nat rows)) k activeAddition)
           (pascal_rows (nat rows)) [0..<nat rows] 0
         = Inr (concat (frame_cells isDark ?w ?sz k activeAddition (nat rows)), row_start (nat rows))"
    using cells_loop_pascal[of 0 "nat rows" isDark ?sz ?w k activeAddition]
    by (simp only: concat_frame_cells row_start_0 le0)
  have "component_draw d isDark rows k activeAddition
       = Inr (header_ops d isDark @ arrows
              @ concat (frame_cells isDark ?w ?sz k activeAddition (nat rows))
              @ title_ops isDark ?w k (totalSteps rows))"
    unfolding component_draw_def t sum.case draw_def Let_def p a(1) c header_ops_def
    using assms(2-4) by simp
  then show ?thesis using a(2) by blast
qed


subsection \<open>The texts of the frame\<close>

lemma texts_placeholder_ops [simp]: "texts (placeholder_ops isDark sz pos) = [''?'']"
  by (simp add: placeholder_ops_def texts_def)

lemma texts_revealed_ops [simp]:
  "texts (revealed_ops isDark sz pos v cur act one) = [js_string v]"
  by (cases cur) (simp_all add: revealed_ops_def texts_def)

lemma texts_header_ops [simp]: "texts (header_ops d isDark) = []"
  by (simp add: header_ops_def texts_def Let_def)

lemma texts_title_ops [simp]: "texts (title_ops isDark w k tot) = [title_text k tot]"
  by (simp add: title_ops_def texts_def)

lemma texts_Cons: "texts (x # xs) = op_text x @ texts xs"
  by (simp add: texts_def)

lemma texts_cell_ops: "texts (cell_ops isDark w sz k activeAddition r c) = cell_texts k activeAddition r c"
  by (simp add: cell_ops_def cell_texts_def texts_Cons)

lemma frame_cells_Suc:
  "frame_cells isDark w sz k activeAddition (Suc n)
   = frame_cells isDark w sz k activeAddition n @ map (cell_ops isDark w sz k activeAddition n) [0..<Suc n]"
  by (simp add: frame_cells_def del: upt_Suc add: upt_Suc_append)

lemma length_frame_cells: "length (frame_cells isDark w sz k activeAddition n) = row_start n"
proof (induction n)
  case 0
  show ?case by (simp add: frame_cells_def)
next
  case (Suc n)
  then show ?case by (simp only: frame_cells_Suc length_append length_map length_upt row_start_Suc)
qed

lemma nth_frame_cells:
  "r < n \<Longrightarrow> c \<le> r \<Longrightarrow>
     frame_cells isDark w sz k activeAddition n ! (row_start r + c) = cell_ops isDark w sz k activeAddition r c"
proof (induction n)
  case 0
  then show ?case by simp
next
  case (Suc n)
  show ?case
  proof (cases "r < n")
    case True
    have "row_start r + c < row_start (Suc r)" using Suc.prems(2) by (simp add: row_start_Suc)
    moreover have "row_start (Suc r) \<le> row_start n" using True by (intro row_start_mono) simp
    ultimately have "row_start r + c < length (frame_cells isDark w sz k activeAddition n)"
      by (simp add: length_frame_cells)
    then show ?thesis
      using Suc.IH[OF True Suc.prems(2)] by (simp only: frame_cells_Suc nth_append if_True)
  next
    case False
    then have r: "r = n" using Suc.prems(1) by simp
    have "\<not> row_start r + c < length (frame_cells isDark w sz k activeAddition n)"
      by (simp add: length_frame_cells r)
    moreover have "row_start r + c - length (frame_cells isDark w sz k activeAddition n) = c"
      by (simp add: length_frame_cells r)
    moreover have "map (cell_ops isDark w sz k activeAddition n) [0..<Suc n] ! c
                   = cell_ops isDark w sz k activeAddition n c"
      using Suc.prems(2) r by (simp del: upt_Suc)
    ultimately show ?thesis by (simp only: frame_cells_Suc nth_append if_False r)
  qed
qed

lemma texts_frame_cells:
  "texts (concat (frame_cells isDark w sz k activeAddition n))
   = concat (map (\<lambda>r. concat (map (cell_texts k activeAddition r) [0..<Suc r])) [0..<n])"
proof (induction n)
  case 0
  show ?case by (simp add: frame_cells_def)
next
  case (Suc n)
  have "texts (concat (map (cell_ops isDark w sz k activeAddition n) [0..<Suc n]))
        = concat (map (cell_texts k activeAddition n) [0..<Suc n])"
    by (simp only: texts_concat map_map comp_def texts_cell_ops)
  then show ?case
    using Suc by (simp only: frame_cells_Suc concat_append texts_append upt_Suc_append[OF le0] map_append)
       simp
qed

lemma replicate_question:
  "(\<And>x. x \<in> set xs \<Longrightarrow> f x = [a]) \<Longrightarrow> concat (map f xs) = replicate (length xs) a"
  by (induction xs) simp_all

lemma hidden_texts:
  assumes "k < 0"
  shows "concat (map (\<lambda>r. concat (map (cell_texts k activeAddition r) [0..<Suc r])) [0..<n])
         = replicate (row_start n) ''?''"
proof (induction n)
  case 0
  show ?case by simp
next
  case (Suc n)
  let ?F = "\<lambda>r. concat (map (cell_texts k activeAddition r) [0..<Suc r])"
  have "?F n = replicate (length [0..<Suc n]) ''?''"
    by (rule replicate_question) (use assms in \<open>simp add: cell_texts_def\<close>)
  then have row: "?F n = replicate (Suc n) ''?''"
    by (simp only: length_upt diff_zero)
  have "concat (map ?F [0..<Suc n]) = concat (map ?F [0..<n]) @ ?F n"
    by (simp only: upt_Suc_append[OF le0] map_append concat_append list.map concat.simps append_Nil2)
  also have "\<dots> = replicate (row_start n) ''?'' @ replicate (Suc n) ''?''"
    by (simp only: Suc row)
  also have "\<dots> = replicate (row_start n + Suc n) ''?''"
    by (simp only: replicate_add)
  also have "row_start n + Suc n = row_start (Suc n)"
    by (simp add: row_start_Suc)
  finally show ?case .
qed

lemma string_of_nat_not_question: "string_of_nat n \<noteq> ''?''"
proof -
  have d: "digit_char (m mod 10) \<noteq> CHR ''?''" for m
  proof -
    have "m mod 10 = 0 \<or> m mod 10 = 1 \<or> m mod 10 = 2 \<or> m mod 10 = 3 \<or> m mod 10 = 4 \<or>
          m mod 10 = 5 \<or> m mod 10 = 6 \<or> m mod 10 = 7 \<or> m mod 10 = 8 \<or> m mod 10 = 9"
      by presburger
    then show ?thesis by (auto simp: digit_char_def)
  qed
  show ?thesis
  proof (cases "n < 10")
    case True
    then have "string_of_nat n = [digit_char (n mod 10)]" by (subst string_of_nat.simps) simp
    then show ?thesis using d[of n] by simp
  next
    case False
    then have "string_of_nat n = string_of_nat (n div 10) @ [digit_char (n mod 10)]"
      by (subst string_of_nat.simps) simp
    then show ?thesis using d[of n] by (cases "string_of_nat (n div 10)") auto
  qed
qed


lemma js_string_not_question: "js_string v \<noteq> ''?''"
proof (cases v)
  case (Num i)
  then show ?thesis
    using string_of_nat_not_question[of "nat i"] by (simp add: string_of_int_def)
qed simp_all

lemma component_draw_texts:
  assumes "1 \<le> rows" "has_canvas d" "has_parent d" "has_context d"
  shows "\<exists>ops. component_draw d isDark rows k activeAddition = Inr ops \<and>
     texts ops = concat (map (\<lambda>r. concat (map (cell_texts k activeAddition r) [0..<Suc r])) [0..<nat rows])
                 @ [title_text k (totalSteps rows)]"
proof -
  obtain arrows where a: "texts arrows = []"
    "component_draw d isDark rows k activeAddition
       = Inr (header_ops d isDark @ arrows
              @ concat (frame_cells isDark (clientWidth d)
                          (cellSize (clientWidth d) (clientHeight d) rows) k activeAddition (nat rows))
              @ title_ops isDark (clientWidth d) k (totalSteps rows))"
    using component_draw_frame[OF assms] by blast
  have "texts (header_ops d isDark @ arrows
              @ concat (frame_cells isDark (clientWidth d)
                          (cellSize (clientWidth d) (clientHeight d) rows) k activeAddition (nat rows))
              @ title_ops isDark (clientWidth d) k (totalSteps rows))
        = concat (map (\<lambda>r. concat (map (cell_texts k activeAddition r) [0..<Suc r])) [0..<nat rows])
                 @ [title_text k (totalSteps rows)]"
    by (simp only: texts_append texts_header_ops a(1) texts_frame_cells texts_title_ops append_Nil)
  then show ?thesis unfolding a(2) by blast
qed




text \<open>
  The progress readout rounds as the doubles do: for 15 rows (120 steps) at step index 68 the
  product \<open>(69 / 120) * 100\<close> is the double just below 57.5, and the readout is 57.
\<close>

lemma progress_68_of_120: "progress 68 120 = 57"
  by code_simp


section \<open>The claims about the active addition and the frame\<close>

text \<open>
  Claim C6. The effect that sets \<open>activeAddition\<close> returns exactly for the step indices up
  to \<open>2^53\<close> (for a larger one \<open>stepToCell\<close> does not return); it sets a cell exactly
  when the step index is at least 0 and \<open>stepToCell\<close> maps it to an interior cell
  (\<open>0 < col < row\<close>), and then it sets that cell; for an edge cell (\<open>col = 0\<close> or
  \<open>col = row\<close>) and for a negative step index it sets null. For 5 rows at step index 4 the
  active addition is \<open>(2, 1)\<close>; the triangle has \<open>triangle[1][0] = 1\<close>, \<open>triangle[1][1] = 1\<close>
  and \<open>triangle[2][1] = 2\<close>, and the frame shows the five revealed values, the formula
  \<open>1 + 1 = 2\<close>, ten placeholders and the progress readout.
\<close>

theorem activeAddition_interior:
  "(activeAddition_effect k \<noteq> None \<longleftrightarrow> k \<le> 2 ^ 53) \<and>
   (activeAddition_effect k = Some (Some cell) \<longleftrightarrow>
      0 \<le> k \<and> stepToCell k = Some cell \<and> 0 < col cell \<and> col cell < row cell) \<and>
   (k < 0 \<or> (\<exists>e. stepToCell k = Some e \<and> (col e = 0 \<or> col e = row e))
      \<longrightarrow> activeAddition_effect k = Some None) \<and>
   activeAddition_effect 4 = Some (Some \<lparr>row = 2, col = 1\<rparr>) \<and>
   (\<exists>t. buildPascal 5 = Inr t \<and> elem_at (t ! 1) 0 = Num 1 \<and> elem_at (t ! 1) 1 = Num 1 \<and>
        elem_at (t ! 2) 1 = Num 2) \<and>
   (has_canvas d \<and> has_parent d \<and> has_context d \<longrightarrow>
      (\<exists>ops. component_draw d isDark 5 4 (Some \<lparr>row = 2, col = 1\<rparr>) = Inr ops \<and>
             texts ops = [''1'', ''1'', ''1'', ''1'', ''2'', ''1 + 1 = 2''] @ replicate 10 ''?''
                         @ [title_text 4 15]))"
proof (intro conjI)
  show "activeAddition_effect k \<noteq> None \<longleftrightarrow> k \<le> 2 ^ 53"
  proof (cases "k < 0")
    case True
    then show ?thesis by (simp add: activeAddition_effect_def)
  next
    case nonneg: False
    show ?thesis
    proof (cases "k \<le> 2 ^ 53")
      case True
      then obtain R C where "stepToCell k = Some \<lparr>row = R, col = C\<rparr>"
        using stepToCell_safe[of k] nonneg by auto
      then show ?thesis using nonneg True by (simp add: activeAddition_effect_def)
    next
      case False
      then have "stepToCell k = None" by (intro stepToCell_unsafe) simp
      then show ?thesis using nonneg False by (simp add: activeAddition_effect_def)
    qed
  qed
next
  show "activeAddition_effect k = Some (Some cell) \<longleftrightarrow>
      0 \<le> k \<and> stepToCell k = Some cell \<and> 0 < col cell \<and> col cell < row cell"
    by (cases "stepToCell k") (auto simp: activeAddition_effect_def)
next
  show "k < 0 \<or> (\<exists>e. stepToCell k = Some e \<and> (col e = 0 \<or> col e = row e))
      \<longrightarrow> activeAddition_effect k = Some None"
    by (auto simp: activeAddition_effect_def)
next
  show "activeAddition_effect 4 = Some (Some \<lparr>row = 2, col = 1\<rparr>)"
    by code_simp
next
  have "buildPascal 5 = Inr [[Num 1], [Num 1, Num 1], [Num 1, Num 2, Num 1],
      [Num 1, Num 3, Num 3, Num 1], [Num 1, Num 4, Num 6, Num 4, Num 1]]"
    by code_simp
  then show "\<exists>t. buildPascal 5 = Inr t \<and> elem_at (t ! 1) 0 = Num 1 \<and> elem_at (t ! 1) 1 = Num 1 \<and>
        elem_at (t ! 2) 1 = Num 2"
    by (simp add: elem_at_def)
next
  have tot: "totalSteps 5 = 15" by code_simp
  have shown: "concat (map (\<lambda>r. concat (map (cell_texts 4 (Some \<lparr>row = 2, col = 1\<rparr>) r) [0..<Suc r])) [0..<nat 5])
        = [''1'', ''1'', ''1'', ''1'', ''2'', ''1 + 1 = 2''] @ replicate 10 ''?''"
    by code_simp
  show "has_canvas d \<and> has_parent d \<and> has_context d \<longrightarrow>
      (\<exists>ops. component_draw d isDark 5 4 (Some \<lparr>row = 2, col = 1\<rparr>) = Inr ops \<and>
             texts ops = [''1'', ''1'', ''1'', ''1'', ''2'', ''1 + 1 = 2''] @ replicate 10 ''?''
                         @ [title_text 4 15])"
  proof
    assume h: "has_canvas d \<and> has_parent d \<and> has_context d"
    have "(1::int) \<le> 5" by simp
    from component_draw_texts[OF this, of d isDark 4 "Some \<lparr>row = 2, col = 1\<rparr>"] h
    show "\<exists>ops. component_draw d isDark 5 4 (Some \<lparr>row = 2, col = 1\<rparr>) = Inr ops \<and>
             texts ops = [''1'', ''1'', ''1'', ''1'', ''2'', ''1 + 1 = 2''] @ replicate 10 ''?''
                         @ [title_text 4 15]"
      by (simp only: shown tot append_assoc)
  qed
qed

theorem activeAddition_interior_witness:
  "activeAddition_effect 4 = Some (Some \<lparr>row = 2, col = 1\<rparr>) \<and>
   activeAddition_effect 9007199254740994 = None \<and>
   stepToCell 4 = Some \<lparr>row = 2, col = 1\<rparr> \<and>
   activeAddition_effect (- 1) = Some None \<and>
   stepToCell 3 = Some \<lparr>row = 2, col = 0\<rparr> \<and>
   activeAddition_effect 3 = Some None \<and>
   (\<exists>ops. component_draw \<lparr>has_canvas = True, has_parent = True, has_context = True,
                devicePixelRatio = 2, clientWidth = 800, clientHeight = 600\<rparr> False 5 4
              (Some \<lparr>row = 2, col = 1\<rparr>) = Inr ops \<and>
          texts ops = [''1'', ''1'', ''1'', ''1'', ''2'', ''1 + 1 = 2''] @ replicate 10 ''?''
                      @ [title_text 4 15])"
proof -
  let ?d = "\<lparr>has_canvas = True, has_parent = True, has_context = True,
                devicePixelRatio = 2, clientWidth = 800, clientHeight = 600\<rparr>"
  note th = activeAddition_interior[of 4 "\<lparr>row = 2, col = 1\<rparr>" ?d False]
  have s4: "stepToCell 4 = Some \<lparr>row = 2, col = 1\<rparr>" by code_simp
  have s3: "stepToCell 3 = Some \<lparr>row = 2, col = 0\<rparr>" by code_simp
  have a4: "activeAddition_effect 4 = Some (Some \<lparr>row = 2, col = 1\<rparr>)"
    using th s4 by simp
  have am: "activeAddition_effect (- 1) = Some None"
    using activeAddition_interior[of "- 1" "\<lparr>row = 2, col = 1\<rparr>" ?d False] by simp
  have a3: "activeAddition_effect 3 = Some None"
    using activeAddition_interior[of 3 "\<lparr>row = 2, col = 1\<rparr>" ?d False] s3 by simp
  have big: "activeAddition_effect 9007199254740994 = None"
    using activeAddition_interior[of 9007199254740994 "\<lparr>row = 2, col = 1\<rparr>" ?d False] by simp
  have h: "has_canvas ?d \<and> has_parent ?d \<and> has_context ?d" by simp
  have dr: "\<exists>ops. component_draw ?d False 5 4 (Some \<lparr>row = 2, col = 1\<rparr>) = Inr ops \<and>
          texts ops = [''1'', ''1'', ''1'', ''1'', ''2'', ''1 + 1 = 2''] @ replicate 10 ''?''
                      @ [title_text 4 15]"
    using th h by blast
  show ?thesis using s4 s3 a4 big am a3 dr by (intro conjI)
qed


text \<open>
  Claim C8. For a triangle of \<open>rows \<ge> 1\<close> rows the frame is the operations before the loops,
  the arrows (which write no text), the operations of the cells in row-major order and the
  progress readout. For every cell \<open>(r, c)\<close> whose step index \<open>r (r + 1) / 2 + c\<close> is greater
  than the current step index, the operations of the cell are exactly the placeholder at the
  position of the cell: the dimmed rounded rectangle and the dimmed text \<open>?\<close>, which is not
  the text of the value of the cell. At a negative step index, so at \<open>-1\<close>, the texts
  of the whole frame are one \<open>?\<close> per cell and the progress readout. The cells are
  \<open>rows (rows + 1) / 2\<close>, which is \<open>totalSteps rows\<close> up to 134217727 rows.
\<close>

theorem unrevealed_cells_are_placeholders:
  assumes "1 \<le> rows" "has_canvas d" "has_parent d" "has_context d"
  shows "\<exists>arrows ops.
     component_draw d isDark rows k activeAddition = Inr ops \<and>
     ops = header_ops d isDark @ arrows
           @ concat (frame_cells isDark (clientWidth d)
                       (cellSize (clientWidth d) (clientHeight d) rows) k activeAddition (nat rows))
           @ title_ops isDark (clientWidth d) k (totalSteps rows) \<and>
     texts (header_ops d isDark) = [] \<and> texts arrows = [] \<and>
     length (frame_cells isDark (clientWidth d)
               (cellSize (clientWidth d) (clientHeight d) rows) k activeAddition (nat rows))
       = nat rows * (nat rows + 1) div 2 \<and>
     (rows \<le> 134217727 \<longrightarrow>
        int (length (frame_cells isDark (clientWidth d)
                       (cellSize (clientWidth d) (clientHeight d) rows) k activeAddition (nat rows)))
          = totalSteps rows) \<and>
     (\<forall>r c. c \<le> r \<and> int r < rows \<and> k < int (r * (r + 1) div 2 + c) \<longrightarrow>
        frame_cells isDark (clientWidth d)
            (cellSize (clientWidth d) (clientHeight d) rows) k activeAddition (nat rows)
          ! (r * (r + 1) div 2 + c)
          = placeholder_ops isDark (cellSize (clientWidth d) (clientHeight d) rows)
              (cell_position (clientWidth d) (cellSize (clientWidth d) (clientHeight d) rows) r c) \<and>
        texts (frame_cells isDark (clientWidth d)
                 (cellSize (clientWidth d) (clientHeight d) rows) k activeAddition (nat rows)
               ! (r * (r + 1) div 2 + c)) = [''?''] \<and>
        js_string (pascal_entry r c) \<noteq> ''?'') \<and>
     (k < 0 \<longrightarrow>
        texts ops = replicate (nat rows * (nat rows + 1) div 2) ''?'' @ [title_text k (totalSteps rows)])"
proof -
  let ?w = "clientWidth d" and ?sz = "cellSize (clientWidth d) (clientHeight d) rows"
  let ?cells = "frame_cells isDark ?w ?sz k activeAddition (nat rows)"
  obtain arrows where a: "texts arrows = []"
    "component_draw d isDark rows k activeAddition
       = Inr (header_ops d isDark @ arrows @ concat ?cells @ title_ops isDark ?w k (totalSteps rows))"
    using component_draw_frame[OF assms] by blast
  have len: "length ?cells = nat rows * (nat rows + 1) div 2"
    by (simp only: length_frame_cells row_start_def)
  have len': "rows \<le> 134217727 \<longrightarrow> int (length ?cells) = totalSteps rows"
    by (simp add: length_frame_cells totalSteps_row_start)
  have hidden: "?cells ! (r * (r + 1) div 2 + c) = placeholder_ops isDark ?sz (cell_position ?w ?sz r c) \<and>
        texts (?cells ! (r * (r + 1) div 2 + c)) = [''?''] \<and>
        js_string (pascal_entry r c) \<noteq> ''?''"
    if h: "c \<le> r \<and> int r < rows \<and> k < int (r * (r + 1) div 2 + c)" for r c
  proof -
    have "int r < rows" using h by blast
    then have r: "r < nat rows" by linarith
    have "?cells ! (row_start r + c) = cell_ops isDark ?w ?sz k activeAddition r c"
      using r h by (intro nth_frame_cells) simp_all
    moreover have "cell_ops isDark ?w ?sz k activeAddition r c
                   = placeholder_ops isDark ?sz (cell_position ?w ?sz r c)"
      using h by (simp add: cell_ops_def row_start_def)
    ultimately have nth: "?cells ! (r * (r + 1) div 2 + c)
                          = placeholder_ops isDark ?sz (cell_position ?w ?sz r c)"
      by (simp add: row_start_def)
    have "js_string (pascal_entry r c) \<noteq> ''?''"
      by (rule js_string_not_question)
    then show ?thesis using nth by (simp only: texts_placeholder_ops) simp
  qed
  have all: "texts (header_ops d isDark @ arrows @ concat ?cells @ title_ops isDark ?w k (totalSteps rows))
             = replicate (nat rows * (nat rows + 1) div 2) ''?'' @ [title_text k (totalSteps rows)]"
    if "k < 0"
  proof -
    show ?thesis
      by (simp only: texts_append texts_header_ops a(1) texts_frame_cells texts_title_ops append_Nil
            hidden_texts[OF that] row_start_def)
  qed
  have hidden_all: "\<forall>r c. c \<le> r \<and> int r < rows \<and> k < int (r * (r + 1) div 2 + c) \<longrightarrow>
        ?cells ! (r * (r + 1) div 2 + c) = placeholder_ops isDark ?sz (cell_position ?w ?sz r c) \<and>
        texts (?cells ! (r * (r + 1) div 2 + c)) = [''?''] \<and>
        js_string (pascal_entry r c) \<noteq> ''?''"
    by (intro allI impI) (rule hidden)
  have all_imp: "k < 0 \<longrightarrow>
      texts (header_ops d isDark @ arrows @ concat ?cells @ title_ops isDark ?w k (totalSteps rows))
        = replicate (nat rows * (nat rows + 1) div 2) ''?'' @ [title_text k (totalSteps rows)]"
    by (intro impI) (rule all)
  show ?thesis
    apply (rule exI[of _ arrows])
    apply (rule exI[of _ "header_ops d isDark @ arrows @ concat ?cells @ title_ops isDark ?w k (totalSteps rows)"])
    apply (intro conjI a(2) refl texts_header_ops a(1) len len' hidden_all all_imp)
    done
qed

theorem unrevealed_cells_are_placeholders_witness:
  "(1::int) \<le> 3 \<and> (3::int) \<le> 134217727 \<and>
   int (length (frame_cells False 800 (cellSize 800 600 3) 1 None (nat 3))) = totalSteps 3 \<and>
   (\<exists>ops. component_draw \<lparr>has_canvas = True, has_parent = True, has_context = True,
                devicePixelRatio = 2, clientWidth = 800, clientHeight = 600\<rparr> False 3 (- 1) None = Inr ops \<and>
          texts ops = replicate 6 ''?'' @ [title_text (- 1) 6]) \<and>
   (1::nat) \<le> 2 \<and> int 2 < 3 \<and> (1::int) < int (2 * (2 + 1) div 2 + 1) \<and>
   texts (frame_cells False 800 (cellSize 800 600 3) 1 None (nat 3) ! (2 * (2 + 1) div 2 + 1)) = [''?'']"
proof -
  let ?d = "\<lparr>has_canvas = True, has_parent = True, has_context = True,
                devicePixelRatio = 2, clientWidth = 800, clientHeight = 600\<rparr>"
  have h: "(1::int) \<le> 3" "has_canvas ?d" "has_parent ?d" "has_context ?d" by simp_all
  have tot: "totalSteps 3 = 6" by code_simp
  have neg: "(- 1 :: int) < 0" by simp
  have a: "\<exists>ops. component_draw ?d False 3 (- 1) None = Inr ops \<and>
          texts ops = replicate 6 ''?'' @ [title_text (- 1) 6]"
    using unrevealed_cells_are_placeholders[OF h, of False "- 1" None] neg
    unfolding tot by (elim exE conjE) (simp del: replicate.simps)
  have c: "(1::nat) \<le> 2 \<and> int 2 < 3 \<and> (1::int) < int (2 * (2 + 1) div 2 + 1)" by simp
  have l: "int (length (frame_cells False 800 (cellSize 800 600 3) 1 None (nat 3))) = totalSteps 3"
    using unrevealed_cells_are_placeholders[OF h, of False 1 None]
    by (elim exE conjE) (simp del: replicate.simps)
  have b: "texts (frame_cells False 800 (cellSize 800 600 3) 1 None (nat 3) ! (2 * (2 + 1) div 2 + 1)) = [''?'']"
    using unrevealed_cells_are_placeholders[OF h, of False 1 None] c
    by (elim exE conjE allE[of _ 2] allE[of _ 1]) (simp del: replicate.simps)
  show ?thesis using h(1) a b c l by (intro conjI) simp_all
qed






end
